theory Spec2Isabelle
  imports Complex_Main "HOL-Library.AList" "HOL-Library.Log_Nat"
begin

section \<open>Data model\<close>

text \<open>
  The program is the script \<^verbatim>\<open>tess_gaia_ps.py\<close>. Its own functions are embedded below
  one by one. Everything it calls in astroquery, lightkurve, astropy, pathlib and
  matplotlib is outside the repository: such a collaborator is either a field of the
  record \<open>lib\<close> (so that a theorem holds for every behaviour of the collaborator), or a
  definition whose comment starts with "Modelled from the spec".
\<close>

subsection \<open>Exceptions\<close>

text \<open>
  The exception classes the script distinguishes. \<open>LightkurveError\<close> is the class caught
  in \<^verbatim>\<open>download_and_stitch\<close>, \<open>ValueError\<close> the one caught at the entry point,
  \<open>OSError\<close> what \<^verbatim>\<open>Path.exists\<close> and \<^verbatim>\<open>Path.unlink\<close> raise (with its subclasses
  \<^verbatim>\<open>PermissionError\<close> and \<^verbatim>\<open>IsADirectoryError\<close>), and \<open>OtherException name msg\<close>
  stands for an exception of any class that derives from none of these. The string is
  \<^verbatim>\<open>str(e)\<close>; for \<open>OSError\<close> it is the path that the error names, the rest of its
  text being fixed by the operating system and never read by the script.
\<close>

datatype exn =
    LightkurveError string
  | ValueError string
  | OSError string
  | OtherException string string

fun str_exn :: "exn \<Rightarrow> string" where
  "str_exn (LightkurveError m) = m"
| "str_exn (ValueError m) = m"
| "str_exn (OSError m) = m"
| "str_exn (OtherException n m) = m"

fun is_LightkurveError :: "exn \<Rightarrow> bool" where
  "is_LightkurveError (LightkurveError m) = True"
| "is_LightkurveError e = False"


subsection \<open>Tables and light curves\<close>

text \<open>
  A floating-point cell of a table is idealised as a rational number or NaN. A table is
  column oriented, as astropy's is: an association list from column names to columns, in
  column order. \<^verbatim>\<open>tbl[name] = col\<close> replaces the column in place when the name exists and
  appends it otherwise, which is \<^const>\<open>AList.update\<close>.
\<close>

datatype cell = NaN | Val rat

type_synonym table = "(string \<times> cell list) list"

definition colnames :: "table \<Rightarrow> string list" where
  "colnames t = map fst t"

definition column :: "table \<Rightarrow> string \<Rightarrow> cell list" where
  "column t name = (case map_of t name of Some c \<Rightarrow> c | None \<Rightarrow> [])"

definition set_column :: "table \<Rightarrow> string \<Rightarrow> cell list \<Rightarrow> table" where
  "set_column t name col = AList.update name col t"

text \<open>
  A \<^verbatim>\<open>LightCurve\<close> object: its class (the script keeps the subclass with
  \<^verbatim>\<open>obj.__class__(tbl)\<close>), its time column, which every light curve has and which the
  script never names, and the table of its other columns, among them \<^verbatim>\<open>flux\<close> and
  \<^verbatim>\<open>flux_err\<close>. The membership tests of the script on \<^verbatim>\<open>colnames\<close> are about names
  other than \<^verbatim>\<open>time\<close>, so they are tests on this table.
\<close>

record lightcurve =
  lc_class :: string
  lc_time :: "rat list"
  lc_table :: table

definition nrows :: "lightcurve \<Rightarrow> nat" where
  "nrows lc = length (lc_time lc)"

text \<open>
  What \<^verbatim>\<open>prod.download\<close> returns: a light curve, or any other object (a target pixel
  file "or similar"), which is represented by its method \<^verbatim>\<open>to_lightcurve\<close> as a function
  of the keyword argument \<^verbatim>\<open>flux_column\<close>.
\<close>

datatype rawproduct =
    LightCurveObj lightcurve
  | OtherObj "string \<Rightarrow> exn + lightcurve"

subsection \<open>The world: file system, console, calls\<close>

datatype kind = RegularFile | Directory

type_synonym filesystem = "string \<rightharpoonup> kind"

text \<open>
  The lines the script prints, with their parameters instead of the formatted text:
  \<open>Downloading n est\<close> is \<^verbatim>\<open>[+] Downloading n files (~est MB)\<close>, with the size part
  present only when \<open>est\<close> is.
\<close>

datatype message =
    Querying string
  | Matched int
  | Found nat nat
  | Downloading nat "rat option"
  | ReadFailed nat nat nat
  | Removing string

text \<open>
  The request \<^verbatim>\<open>plot_periodogram\<close> passes to \<^verbatim>\<open>lc.to_periodogram\<close>.
\<close>

record pg_request =
  pg_method :: string
  minimum_frequency :: rat
  maximum_frequency :: rat
  oversample_factor :: nat

text \<open>
  The trace records, in order, what the script does to the outside: the lines printed on
  standard output, the files unlinked, and one entry for each call of a collaborator or
  of the recovery helper. \<open>Attempted i a r\<close> closes attempt \<open>a\<close> at item \<open>i\<close>: \<open>r\<close> is the
  exception raised by the download or the normalisation, if any.
\<close>

datatype event =
    Stdout message
  | Unlinked string
  | QueryObject string
  | SearchLightcurve string nat
  | Attempted nat nat "exn option"
  | CleanCall string
  | Stitched nat
  | ToPeriodogram pg_request
  | PlotStarted string
  | PlotShown string

text \<open>
  The world of a run. \<open>fs\<close> gives the entry each path string resolves to. \<open>denied\<close> are
  the paths that the process may not examine, because a directory on the way may not be
  searched: \<^verbatim>\<open>os.stat\<close> fails on them with \<^verbatim>\<open>EACCES\<close>. \<open>readonly\<close> are the paths
  whose entry the process may not remove (\<^verbatim>\<open>EACCES\<close>, \<^verbatim>\<open>EPERM\<close>, \<^verbatim>\<open>EROFS\<close>).
\<close>

record 'x world =
  fs :: filesystem
  denied :: "string set"
  readonly :: "string set"
  trace :: "event list"
  ext :: 'x

definition emit :: "event \<Rightarrow> 'x world \<Rightarrow> 'x world" where
  "emit e w = w\<lparr>trace := trace w @ [e]\<rparr>"

section \<open>CorruptionRecovery: \<^verbatim>\<open>_clean_corrupt_file\<close>\<close>

text \<open>
  \<^verbatim>\<open>re.search(r"(/[^ ]+\.fits)", err_msg)\<close>. At one position the pattern wants a slash,
  then one or more characters other than the space, as many as possible, then
  \<^verbatim>\<open>.fits\<close>: \<open>backtrack rest k\<close> lets the class consume \<open>k\<close> characters and gives one back
  at a time until \<^verbatim>\<open>.fits\<close> follows. \<open>re_search\<close> tries the positions from the left.
  The result is \<^verbatim>\<open>m.group(1)\<close>, which is the whole match.
\<close>

fun backtrack :: "string \<Rightarrow> nat \<Rightarrow> string option" where
  "backtrack rest 0 = None"
| "backtrack rest (Suc k) =
     (if take 5 (drop (Suc k) rest) = ''.fits''
      then Some (take (Suc k + 5) rest)
      else backtrack rest k)"

definition match_here :: "string \<Rightarrow> string option" where
  "match_here s =
     (case s of
        [] \<Rightarrow> None
      | c # rest \<Rightarrow>
          if c = CHR ''/''
          then map_option (\<lambda>m. c # m)
                 (backtrack rest (length (takeWhile (\<lambda>d. d \<noteq> CHR '' '') rest)))
          else None)"

fun re_search :: "string \<Rightarrow> string option" where
  "re_search [] = None"
| "re_search (c # cs) =
     (case match_here (c # cs) of
        Some m \<Rightarrow> Some m
      | None \<Rightarrow> re_search cs)"

text \<open>
  When \<^verbatim>\<open>os.stat\<close> fails on a path with an error other than "no such entry": a
  component of the path is longer than \<^verbatim>\<open>NAME_MAX\<close> (255) or the path reaches
  \<^verbatim>\<open>PATH_MAX\<close> (4096), which is \<^verbatim>\<open>ENAMETOOLONG\<close>, or the path is one of \<open>denied\<close>.
\<close>

fun components :: "string \<Rightarrow> string list" where
  "components [] = [[]]"
| "components (c # cs) =
     (if c = CHR ''/'' then [] # components cs
      else (case components cs of
              [] \<Rightarrow> [[c]]
            | x # xs \<Rightarrow> (c # x) # xs))"

definition name_too_long :: "string \<Rightarrow> bool" where
  "name_too_long p = (length p \<ge> 4096 \<or> list_ex (\<lambda>c. length c > 255) (components p))"

definition stat_fails :: "'x world \<Rightarrow> string \<Rightarrow> bool" where
  "stat_fails w p = (name_too_long p \<or> p \<in> denied w)"

text \<open>
  \<^verbatim>\<open>p.exists()\<close> calls \<^verbatim>\<open>os.stat\<close>; it answers \<^verbatim>\<open>False\<close> when the error says that
  there is no such entry and raises every other \<^verbatim>\<open>OSError\<close> again.
  \<^verbatim>\<open>p.unlink(missing_ok=True)\<close> ignores a missing entry only: it raises for a path
  that cannot be examined, for a directory, and for an entry that may not be removed.
\<close>

definition path_exists :: "'x world \<Rightarrow> string \<Rightarrow> exn + bool" where
  "path_exists w p = (if stat_fails w p then Inl (OSError p) else Inr (fs w p \<noteq> None))"

definition unlink :: "string \<Rightarrow> 'x world \<Rightarrow> (exn + unit) \<times> 'x world" where
  "unlink p w =
     (if stat_fails w p then (Inl (OSError p), w)
      else case fs w p of
             None \<Rightarrow> (Inr (), w)
           | Some Directory \<Rightarrow> (Inl (OSError p), w)
           | Some RegularFile \<Rightarrow>
               if p \<in> readonly w then (Inl (OSError p), w)
               else (Inr (), emit (Unlinked p) (w\<lparr>fs := (fs w)(p := None)\<rparr>)))"

definition clean_corrupt_file :: "string \<Rightarrow> 'x world \<Rightarrow> (exn + unit) \<times> 'x world" where
  "clean_corrupt_file err_msg w =
     (case re_search err_msg of
        None \<Rightarrow> (Inr (), w)
      | Some p \<Rightarrow>
          (case path_exists w p of
             Inl e \<Rightarrow> (Inl e, w)
           | Inr found \<Rightarrow>
               if found then unlink p (emit (Stdout (Removing p)) w)
               else (Inr (), w)))"

section \<open>Collaborators\<close>

text \<open>
  A collaborator that reaches outside the process (catalogue, archive search, download,
  plotting) sees the file system and the rest of the outside, of type \<open>'x\<close>; it returns
  a value or raises, and leaves a new file system and a new outside. It does not see the
  trace. The operations on light curves are functions that return a value or raise.
\<close>

type_synonym ('a, 'x) call = "filesystem \<times> 'x \<Rightarrow> (exn + 'a) \<times> filesystem \<times> 'x"

definition run_call :: "('a, 'x) call \<Rightarrow> 'x world \<Rightarrow> (exn + 'a) \<times> 'x world" where
  "run_call c w =
     (case c (fs w, ext w) of
        (r, f, x) \<Rightarrow> (r, w\<lparr>fs := f, ext := x\<rparr>))"

text \<open>
  A \<^verbatim>\<open>SearchResult\<close>: the numeric metadata columns of its table and its rows, one
  per downloadable product. \<^verbatim>\<open>len(srch)\<close> is the number of rows.
\<close>

record 'p searchresult =
  sr_table :: "(string \<times> rat list) list"
  sr_rows :: "'p list"

definition len_srch :: "'p searchresult \<Rightarrow> nat" where
  "len_srch s = length (sr_rows s)"

type_synonym periodogram = "(rat \<times> rat) list"

text \<open>
  \<open>query_object name catalog\<close> is \<^verbatim>\<open>Catalogs.query_object\<close> and returns the rows
  found, each as what \<^verbatim>\<open>int(row["ID"])\<close> evaluates to: an integer, or the exception
  raised by the look-up of the column or by the conversion.
  \<open>search_lightcurve tic mission exptime\<close> is \<^verbatim>\<open>lk.search_lightcurve\<close> for the target
  \<^verbatim>\<open>TIC tic\<close>. \<open>download prd bitmask\<close> is \<^verbatim>\<open>prod.download\<close>. \<open>plotting pg title\<close> is
  the sequence of matplotlib calls of \<^verbatim>\<open>plot_periodogram\<close>, up to \<^verbatim>\<open>plt.show()\<close>.
\<close>

record ('p, 'x) lib =
  query_object :: "string \<Rightarrow> string \<Rightarrow> ((exn + int) list, 'x) call"
  search_lightcurve :: "int \<Rightarrow> string \<Rightarrow> nat \<Rightarrow> ('p searchresult, 'x) call"
  download :: "'p \<Rightarrow> string \<Rightarrow> (rawproduct, 'x) call"
  remove_nans :: "lightcurve \<Rightarrow> exn + lightcurve"
  normalize :: "string \<Rightarrow> lightcurve \<Rightarrow> exn + lightcurve"
  remove_outliers :: "rat \<Rightarrow> lightcurve \<Rightarrow> exn + lightcurve"
  stitch :: "lightcurve list \<Rightarrow> exn + lightcurve"
  to_periodogram :: "lightcurve \<Rightarrow> pg_request \<Rightarrow> exn + periodogram"
  plotting :: "periodogram \<Rightarrow> string \<Rightarrow> (unit, 'x) call"

definition and_then :: "exn + 'a \<Rightarrow> ('a \<Rightarrow> exn + 'b) \<Rightarrow> exn + 'b" where
  "and_then r f = (case r of Inl e \<Rightarrow> Inl e | Inr v \<Rightarrow> f v)"

section \<open>The operations on light curves, as the specification describes them\<close>

text \<open>
  lightkurve is not part of the repository. The definitions of this section follow what
  the specification says of its operations; a theorem that depends on them assumes that
  the fields of \<open>lib\<close> are these functions.
\<close>

definition select_rows :: "bool list \<Rightarrow> 'a list \<Rightarrow> 'a list" where
  "select_rows keep xs = map snd (filter fst (zip keep xs))"

definition filter_lc :: "bool list \<Rightarrow> lightcurve \<Rightarrow> lightcurve" where
  "filter_lc keep lc =
     lc\<lparr>lc_time := select_rows keep (lc_time lc),
        lc_table := map (\<lambda>(name, c). (name, select_rows keep c)) (lc_table lc)\<rparr>"

definition map_column :: "string \<Rightarrow> (cell \<Rightarrow> cell) \<Rightarrow> table \<Rightarrow> table" where
  "map_column name f t = map (\<lambda>(n, c). if n = name then (n, map f c) else (n, c)) t"

fun vals :: "cell list \<Rightarrow> rat list" where
  "vals [] = []"
| "vals (NaN # cs) = vals cs"
| "vals (Val v # cs) = v # vals cs"

definition median :: "rat list \<Rightarrow> rat option" where
  "median xs =
     (let s = sort xs; n = length s
      in if n = 0 then None
         else if odd n then Some (s ! (n div 2))
         else Some ((s ! (n div 2 - 1) + s ! (n div 2)) / 2))"

definition variance :: "rat list \<Rightarrow> rat" where
  "variance xs =
     (let n = of_nat (length xs); mean = sum_list xs / n
      in sum_list (map (\<lambda>v. (v - mean) ^ 2) xs) / n)"

text \<open>
  Modelled from the spec: \<^verbatim>\<open>LightCurve.remove_nans\<close> is missing; the specification says
  "drop samples with missing/NaN values". The rows dropped are those whose flux is NaN.
\<close>

definition spec_remove_nans :: "lightcurve \<Rightarrow> exn + lightcurve" where
  "spec_remove_nans lc =
     Inr (filter_lc (map (\<lambda>c. c \<noteq> NaN) (column (lc_table lc) ''flux'')) lc)"

text \<open>
  Modelled from the spec: \<^verbatim>\<open>LightCurve.normalize\<close> is missing; the specification says
  "rescale flux to a parts-per-million baseline around a normalized level of 1.0". Flux
  and its uncertainty are divided by the median flux, which gives the level 1.0, and
  expressed in the unit: 1.0 is one million parts per million. A median that is missing
  or zero gives NaN.
\<close>

definition unit_factor :: "string \<Rightarrow> rat" where
  "unit_factor u = (if u = ''ppm'' then 1000000 else 1)"

fun rescale :: "rat option \<Rightarrow> rat \<Rightarrow> cell \<Rightarrow> cell" where
  "rescale None k c = NaN"
| "rescale (Some m) k NaN = NaN"
| "rescale (Some m) k (Val v) = (if m = 0 then NaN else Val (v / m * k))"

definition spec_normalize :: "string \<Rightarrow> lightcurve \<Rightarrow> exn + lightcurve" where
  "spec_normalize u lc =
     (let m = median (vals (column (lc_table lc) ''flux''))
      in Inr (lc\<lparr>lc_table :=
                 map_column ''flux_err'' (rescale m (unit_factor u))
                   (map_column ''flux'' (rescale m (unit_factor u)) (lc_table lc))\<rparr>))"

text \<open>
  Modelled from the spec: \<^verbatim>\<open>LightCurve.remove_outliers\<close> is missing; the specification
  says "remove statistical outliers beyond 10 standard deviations from the local
  trend". A row is kept when its flux is no further from the median flux than \<open>sigma\<close>
  standard deviations; the comparison is made on the squares.
\<close>

definition within_sigma :: "rat \<Rightarrow> rat list \<Rightarrow> cell \<Rightarrow> bool" where
  "within_sigma sigma xs c =
     (case c of
        NaN \<Rightarrow> False
      | Val v \<Rightarrow>
          (case median xs of
             None \<Rightarrow> False
           | Some m \<Rightarrow> (v - m) ^ 2 \<le> sigma ^ 2 * variance xs))"

definition spec_remove_outliers :: "rat \<Rightarrow> lightcurve \<Rightarrow> exn + lightcurve" where
  "spec_remove_outliers sigma lc =
     (let flux = column (lc_table lc) ''flux''
      in Inr (filter_lc (map (within_sigma sigma (vals flux)) flux) lc))"

text \<open>
  Modelled from the spec: \<^verbatim>\<open>LightCurveCollection.stitch\<close> is missing; the specification
  says "concatenates the accumulated FluxSeries end-to-end into one StitchedSeries (pure
  append - no time-alignment, interpolation, or deduplication across segments)". The
  columns kept are those of the first light curve that all the others have.
\<close>

definition spec_stitch :: "lightcurve list \<Rightarrow> exn + lightcurve" where
  "spec_stitch lcs =
     Inr \<lparr>lc_class = (case lcs of [] \<Rightarrow> ''LightCurve'' | lc # _ \<Rightarrow> lc_class lc),
          lc_time = concat (map lc_time lcs),
          lc_table =
            (case lcs of
               [] \<Rightarrow> []
             | lc # _ \<Rightarrow>
                 map (\<lambda>name. (name, concat (map (\<lambda>l. column (lc_table l) name) lcs)))
                   (filter (\<lambda>name. list_all (\<lambda>l. name \<in> set (colnames (lc_table l))) lcs)
                      (colnames (lc_table lc))))\<rparr>"

definition follows_spec :: "('p, 'x) lib \<Rightarrow> bool" where
  "follows_spec L =
     (remove_nans L = spec_remove_nans \<and> normalize L = spec_normalize
      \<and> remove_outliers L = spec_remove_outliers \<and> stitch L = spec_stitch)"

section \<open>IdentifierResolver: \<^verbatim>\<open>gaia_to_tic\<close>\<close>



section \<open>ObservationLocator: \<^verbatim>\<open>search_tess_lc\<close>\<close>

text \<open>
  The loop \<^verbatim>\<open>for exptime in (20, 120, 1800)\<close>, as a recursion on the exposure times left.
  After the loop the script returns \<^verbatim>\<open>lk.search.SearchResult([])\<close>, a result with no
  table columns and no rows.
\<close>

definition empty_searchresult :: "'p searchresult" where
  "empty_searchresult = \<lparr>sr_table = [], sr_rows = []\<rparr>"

fun search_loop ::
  "('p, 'x) lib \<Rightarrow> int \<Rightarrow> nat list \<Rightarrow> 'x world \<Rightarrow> (exn + 'p searchresult) \<times> 'x world" where
  "search_loop L tic_id [] w = (Inr empty_searchresult, w)"
| "search_loop L tic_id (exptime # rest) w =
     (case run_call (search_lightcurve L tic_id ''TESS'' exptime)
             (emit (SearchLightcurve ''TESS'' exptime) w) of
        (Inl e, w1) \<Rightarrow> (Inl e, w1)
      | (Inr srch, w1) \<Rightarrow>
          if len_srch srch > 0
          then (Inr srch, emit (Stdout (Found (len_srch srch) exptime)) w1)
          else search_loop L tic_id rest w1)"

definition search_tess_lc ::
  "('p, 'x) lib \<Rightarrow> int \<Rightarrow> 'x world \<Rightarrow> (exn + 'p searchresult) \<times> 'x world" where
  "search_tess_lc L tic_id w = search_loop L tic_id [20, 120, 1800] w"

section \<open>Size estimate: \<^verbatim>\<open>_estimate_size_mb\<close>\<close>

fun estimate_loop :: "string list \<Rightarrow> 'p searchresult \<Rightarrow> rat option" where
  "estimate_loop [] srch = None"
| "estimate_loop (col # cols) srch =
     (case map_of (sr_table srch) col of
        Some c \<Rightarrow> Some (sum_list c / 1024 ^ 2)
      | None \<Rightarrow> estimate_loop cols srch)"

definition estimate_size_mb :: "'p searchresult \<Rightarrow> rat option" where
  "estimate_size_mb srch = estimate_loop [''filesize'', ''size'', ''file_size''] srch"

section \<open>ProductNormalizer: \<^verbatim>\<open>_to_sap_lightcurve\<close>\<close>

text \<open>
  \<open>sap_select\<close> is the first part of the function (the choice of the light curve),
  \<open>clean_normalize\<close> its last statement
  \<^verbatim>\<open>lc.remove_nans().normalize(unit="ppm").remove_outliers(sigma=10)\<close>.
\<close>

definition sap_copy :: "lightcurve \<Rightarrow> lightcurve" where
  "sap_copy obj =
     (let tbl = lc_table obj;
          tbl1 = set_column tbl ''flux'' (column tbl ''sap_flux'');
          tbl2 = (if ''flux_err'' \<in> set (colnames tbl1) \<and> ''sap_flux_err'' \<in> set (colnames tbl1)
                  then set_column tbl1 ''flux_err'' (column tbl1 ''sap_flux_err'')
                  else tbl1)
      in \<lparr>lc_class = lc_class obj, lc_time = lc_time obj, lc_table = tbl2\<rparr>)"

fun sap_select :: "rawproduct \<Rightarrow> exn + lightcurve" where
  "sap_select (LightCurveObj obj) =
     (if ''sap_flux'' \<in> set (colnames (lc_table obj))
      then Inr (sap_copy obj)
      else Inr obj)"
| "sap_select (OtherObj to_lightcurve) = to_lightcurve ''sap_flux''"

definition clean_normalize :: "('p, 'x) lib \<Rightarrow> lightcurve \<Rightarrow> exn + lightcurve" where
  "clean_normalize L lc =
     and_then (and_then (remove_nans L lc) (normalize L ''ppm'')) (remove_outliers L 10)"

definition to_sap_lightcurve :: "('p, 'x) lib \<Rightarrow> rawproduct \<Rightarrow> exn + lightcurve" where
  "to_sap_lightcurve L obj = and_then (sap_select obj) (clean_normalize L)"

section \<open>StitchPipeline: \<^verbatim>\<open>download_and_stitch\<close>\<close>

text \<open>
  The body of the \<^verbatim>\<open>try\<close>: download, then normalise.
\<close>

definition try_body ::
  "('p, 'x) lib \<Rightarrow> 'p \<Rightarrow> 'x world \<Rightarrow> (exn + lightcurve) \<times> 'x world" where
  "try_body L prd w =
     (case run_call (download L prd ''default'') w of
        (Inl e, w1) \<Rightarrow> (Inl e, w1)
      | (Inr obj, w1) \<Rightarrow> (to_sap_lightcurve L obj, w1))"

text \<open>
  The loop \<^verbatim>\<open>for attempt in (1, 2)\<close>, as a recursion on the attempts left. The
  variable \<^verbatim>\<open>lc\<close> of the script is the argument \<open>lc\<close>: \<open>None\<close> while it is unbound. A
  \<^verbatim>\<open>break\<close> returns the new binding; a loop that runs out of attempts returns the old
  one. The handler catches \<^verbatim>\<open>LightkurveError\<close> only; an exception raised by the cleanup
  inside the handler propagates.
\<close>

fun attempt_loop ::
  "('p, 'x) lib \<Rightarrow> nat \<Rightarrow> nat \<Rightarrow> 'p \<Rightarrow> nat list \<Rightarrow> lightcurve option \<Rightarrow> 'x world
     \<Rightarrow> (exn + lightcurve option) \<times> 'x world" where
  "attempt_loop L i n prd [] lc w = (Inr lc, w)"
| "attempt_loop L i n prd (attempt # rest) lc w =
     (case try_body L prd w of
        (Inr lc1, w1) \<Rightarrow> (Inr (Some lc1), emit (Attempted i attempt None) w1)
      | (Inl e, w1) \<Rightarrow>
          (let w2 = emit (Attempted i attempt (Some e)) w1
           in if is_LightkurveError e
              then (case clean_corrupt_file (str_exn e)
                           (emit (CleanCall (str_exn e))
                              (emit (Stdout (ReadFailed i n attempt)) w2)) of
                      (Inl e1, w3) \<Rightarrow> (Inl e1, w3)
                    | (Inr u, w3) \<Rightarrow>
                        if attempt = 2 then (Inl e, w3)
                        else attempt_loop L i n prd rest lc w3)
              else (Inl e, w2)))"

text \<open>
  The loop \<^verbatim>\<open>for i, prod in enumerate(srch, 1)\<close>. \<^verbatim>\<open>lcs.append(lc)\<close> raises
  \<^verbatim>\<open>UnboundLocalError\<close> when \<^verbatim>\<open>lc\<close> is unbound.
\<close>

fun item_loop ::
  "('p, 'x) lib \<Rightarrow> nat \<Rightarrow> (nat \<times> 'p) list \<Rightarrow> lightcurve option \<Rightarrow> lightcurve list
     \<Rightarrow> 'x world \<Rightarrow> (exn + lightcurve list) \<times> 'x world" where
  "item_loop L n [] lc lcs w = (Inr lcs, w)"
| "item_loop L n ((i, prd) # rest) lc lcs w =
     (case attempt_loop L i n prd [1, 2] lc w of
        (Inl e, w1) \<Rightarrow> (Inl e, w1)
      | (Inr None, w1) \<Rightarrow> (Inl (OtherException ''UnboundLocalError'' ''lc''), w1)
      | (Inr (Some v), w1) \<Rightarrow> item_loop L n rest (Some v) (lcs @ [v]) w1)"

definition enumerate1 :: "'a list \<Rightarrow> (nat \<times> 'a) list" where
  "enumerate1 xs = zip [1 ..< Suc (length xs)] xs"

text \<open>
  In the progress line, \<^verbatim>\<open>if est\<close> is false for \<^verbatim>\<open>None\<close> and for zero.
\<close>

definition shown_estimate :: "rat option \<Rightarrow> rat option" where
  "shown_estimate est = (case est of None \<Rightarrow> None | Some v \<Rightarrow> if v = 0 then None else Some v)"

definition download_and_stitch ::
  "('p, 'x) lib \<Rightarrow> 'p searchresult \<Rightarrow> 'x world \<Rightarrow> (exn + lightcurve) \<times> 'x world" where
  "download_and_stitch L srch w =
     (let est = estimate_size_mb srch;
          w1 = emit (Stdout (Downloading (len_srch srch) (shown_estimate est))) w
      in case item_loop L (len_srch srch) (enumerate1 (sr_rows srch)) None [] w1 of
           (Inl e, w2) \<Rightarrow> (Inl e, w2)
         | (Inr lcs, w2) \<Rightarrow> (stitch L lcs, emit (Stitched (length lcs)) w2))"

section \<open>SpectrumAnalyzer: \<^verbatim>\<open>plot_periodogram\<close>\<close>

text \<open>
  Python's \<^verbatim>\<open>float\<close> is the IEEE 754 double. \<open>fl x\<close> is the double nearest to the
  rational \<open>x\<close> (ties to the even significand of 53 bits), itself as a rational; a
  floating-point operation returns \<open>fl\<close> of the exact result. Overflow and subnormal
  numbers are left out: the script's arithmetic stays far from both.
\<close>

definition round_half_even :: "rat \<Rightarrow> int" where
  "round_half_even y =
     (let f = \<lfloor>y\<rfloor>; d = y - of_int f
      in if d < 1 / 2 then f
         else if d > 1 / 2 then f + 1
         else if even f then f else f + 1)"

definition pow2 :: "int \<Rightarrow> rat" where
  "pow2 e = (if e \<ge> 0 then 2 ^ nat e else 1 / 2 ^ nat (- e))"

definition binade :: "rat \<Rightarrow> int" where
  "binade x =
     (let k = bitlen (fst (quotient_of x)) - bitlen (snd (quotient_of x))
      in if x < pow2 k then k - 1 else k)"

definition fl :: "rat \<Rightarrow> rat" where
  "fl x =
     (if x = 0 then 0
      else let a = \<bar>x\<bar>; e = binade a - 52;
               m = round_half_even (a / pow2 e)
           in sgn x * of_int m * pow2 e)"

definition float_div :: "rat \<Rightarrow> rat \<Rightarrow> rat" where
  "float_div a b = fl (a / b)"

definition float_mul :: "rat \<Rightarrow> rat \<Rightarrow> rat" where
  "float_mul a b = fl (a * b)"

definition periodogram_request :: pg_request where
  "periodogram_request =
     (let min_p = 50; max_p = 2000;
          min_f = float_mul (float_div 1 max_p) 86400;
          max_f = float_mul (float_div 1 min_p) 86400
      in \<lparr>pg_method = ''lombscargle'', minimum_frequency = min_f,
          maximum_frequency = max_f, oversample_factor = 5\<rparr>)"

text \<open>
  The title of the plot is fixed by \<^verbatim>\<open>gaia_id\<close>, which stands for it.
\<close>

definition plot_periodogram ::
  "('p, 'x) lib \<Rightarrow> lightcurve \<Rightarrow> string \<Rightarrow> 'x world \<Rightarrow> (exn + unit) \<times> 'x world" where
  "plot_periodogram L lc gaia_id w =
     (let w1 = emit (ToPeriodogram periodogram_request) w
      in case to_periodogram L lc periodogram_request of
           Inl e \<Rightarrow> (Inl e, w1)
         | Inr pg \<Rightarrow>
             (case run_call (plotting L pg gaia_id) (emit (PlotStarted gaia_id) w1) of
                (Inl e, w2) \<Rightarrow> (Inl e, w2)
              | (Inr u, w2) \<Rightarrow> (Inr (), emit (PlotShown gaia_id) w2)))"

section \<open>Orchestrator: the entry point\<close>










section \<open>Concrete inputs\<close>

text \<open>
  A path whose last component has 305 characters: no file system with \<^verbatim>\<open>NAME_MAX\<close> 255
  holds an entry of that name.
\<close>

definition long_name :: string where
  "long_name = CHR ''/'' # replicate 300 (CHR ''a'') @ ''.fits''"

text \<open>
  Concrete collaborators on which the theorems below are instantiated. The archive holds
  the products named by \<open>prods\<close>, all at the 120 s cadence. A product downloads as
  \<open>demo_lc\<close>, except that \<^verbatim>\<open>broken\<close> never downloads, \<^verbatim>\<open>crash\<close> raises an
  exception that is not a \<open>LightkurveError\<close>, and \<^verbatim>\<open>flaky\<close> fails as long as its
  cached file exists. The operations on light curves are those of the specification.
\<close>

definition demo_lc :: lightcurve where
  "demo_lc =
     \<lparr>lc_class = ''TessLightCurve'', lc_time = [1, 2, 3],
      lc_table = [(''flux'', [Val 5, Val 6, Val 7]), (''sap_flux'', [Val 2, NaN, Val 4])]\<rparr>"

definition demo_download :: "string \<Rightarrow> string \<Rightarrow> (rawproduct, unit) call" where
  "demo_download prd bitmask =
     (\<lambda>(f, x).
        if prd = ''broken'' then (Inl (LightkurveError ''download failed''), f, x)
        else if prd = ''crash'' then (Inl (OtherException ''KeyError'' ''SAP_FLUX''), f, x)
        else if prd = ''flaky'' \<and> f ''/cache/flaky.fits'' = Some RegularFile
        then (Inl (LightkurveError ''Not recognized as a data product: /cache/flaky.fits''), f, x)
        else (Inr (LightCurveObj demo_lc), f, x))"

definition demo_res :: "string list \<Rightarrow> nat \<Rightarrow> string searchresult" where
  "demo_res prods exptime =
     (if exptime = 120 then \<lparr>sr_table = [], sr_rows = prods\<rparr> else empty_searchresult)"

definition demo_lib :: "string list \<Rightarrow> (string, unit) lib" where
  "demo_lib prods =
     \<lparr>query_object = (\<lambda>name catalog (f, x).
         (Inr (if name = ''Gaia DR3 42'' then [Inr 7] else []), f, x)),
      search_lightcurve = (\<lambda>tic mission exptime (f, x). (Inr (demo_res prods exptime), f, x)),
      download = demo_download,
      remove_nans = spec_remove_nans,
      normalize = spec_normalize,
      remove_outliers = spec_remove_outliers,
      stitch = spec_stitch,
      to_periodogram = (\<lambda>lc req. Inr []),
      plotting = (\<lambda>pg title (f, x). (Inr (), f, x))\<rparr>"

definition demo_world :: "unit world" where
  "demo_world =
     \<lparr>fs = [''/cache/flaky.fits'' \<mapsto> RegularFile], denied = {}, readonly = {},
      trace = [], ext = ()\<rparr>"

section \<open>Observations on traces\<close>

text \<open>
  \<open>attempts_at i evs\<close> counts the attempts made at item \<open>i\<close>.
\<close>

fun is_attempt :: "nat \<Rightarrow> event \<Rightarrow> bool" where
  "is_attempt i (Attempted j a r) = (j = i)"
| "is_attempt i e = False"

definition attempts_at :: "nat \<Rightarrow> event list \<Rightarrow> nat" where
  "attempts_at i evs = length (filter (is_attempt i) evs)"

fun no_attempt :: "event \<Rightarrow> bool" where
  "no_attempt (Attempted j a r) = False"
| "no_attempt e = True"

text \<open>
  \<open>cleanup_follows n evs\<close>: every attempt that ended on a \<open>LightkurveError\<close> with
  message \<open>m\<close> is followed at once by the line "Read failed" and the call of the recovery
  with \<open>m\<close>. \<open>propagates_at_once r evs\<close>: an attempt that ended on another exception is
  the last event, and that exception is the result \<open>r\<close>.
\<close>

definition lk_failure :: "event \<Rightarrow> (nat \<times> nat \<times> string) option" where
  "lk_failure e =
     (case e of
        Attempted i a (Some (LightkurveError m)) \<Rightarrow> Some (i, a, m)
      | _ \<Rightarrow> None)"

fun cleanup_follows :: "nat \<Rightarrow> event list \<Rightarrow> bool" where
  "cleanup_follows n [] = True"
| "cleanup_follows n (e # rest) =
     ((case lk_failure e of
         None \<Rightarrow> True
       | Some (i, a, m) \<Rightarrow> take 2 rest = [Stdout (ReadFailed i n a), CleanCall m])
      \<and> cleanup_follows n rest)"

definition other_failure :: "event \<Rightarrow> exn option" where
  "other_failure e =
     (case e of
        Attempted i a (Some x) \<Rightarrow> if is_LightkurveError x then None else Some x
      | _ \<Rightarrow> None)"

fun propagates_at_once :: "exn + 'a \<Rightarrow> event list \<Rightarrow> bool" where
  "propagates_at_once r [] = True"
| "propagates_at_once r (e # rest) =
     ((case other_failure e of
         None \<Rightarrow> True
       | Some x \<Rightarrow> rest = [] \<and> r = Inl x)
      \<and> propagates_at_once r rest)"

text \<open>
  \<open>produced_from L prd lc\<close>: the light curve \<open>lc\<close> is what the normaliser made of an object
  that a download of \<open>prd\<close> returned. \<open>shift t w\<close> is the world \<open>w\<close> with \<open>t\<close> put in
  front of its trace.
\<close>

definition produced_from :: "('p, 'x) lib \<Rightarrow> 'p \<Rightarrow> lightcurve \<Rightarrow> bool" where
  "produced_from L prd lc =
     (\<exists>f x obj f1 x1. download L prd ''default'' (f, x) = (Inr obj, f1, x1)
        \<and> to_sap_lightcurve L obj = Inr lc)"

definition shift :: "event list \<Rightarrow> 'x world \<Rightarrow> 'x world" where
  "shift t w = w\<lparr>trace := t @ trace w\<rparr>"

definition flaky_msg :: string where
  "flaky_msg = ''Not recognized as a data product: /cache/flaky.fits''"

text \<open>
  A search result whose table has no size column.
\<close>

definition demo_srch :: "string searchresult" where
  "demo_srch = \<lparr>sr_table = [(''exptime'', [120])], sr_rows = [''good'']\<rparr>"




section \<open>Properties of the recovery\<close>

lemma backtrack_Some:
  "backtrack rest k = Some m \<Longrightarrow>
     \<exists>j. 1 \<le> j \<and> j \<le> k \<and> m = take (j + 5) rest \<and> take 5 (drop j rest) = ''.fits''"
proof (induction k)
  case 0
  then show ?case by simp
next
  case (Suc k)
  show ?case
  proof (cases "take 5 (drop (Suc k) rest) = ''.fits''")
    case True
    with Suc.prems have "m = take (Suc k + 5) rest" by simp
    with True show ?thesis by (intro exI[of _ "Suc k"]) simp
  next
    case False
    with Suc.prems have "backtrack rest k = Some m" by simp
    from Suc.IH[OF this] obtain j where
      "1 \<le> j" "j \<le> k" "m = take (j + 5) rest" "take 5 (drop j rest) = ''.fits''" by blast
    then show ?thesis by (intro exI[of _ j]) simp
  qed
qed

lemma take5_split:
  assumes "take 5 xs = ''.fits''"
  shows "xs = ''.fits'' @ drop 5 xs"
proof -
  have "xs = take 5 xs @ drop 5 xs" by simp
  with assms show ?thesis by metis
qed

lemma match_here_Some:
  assumes "match_here s = Some m"
  shows "\<exists>u ss. s = CHR ''/'' # u @ ''.fits'' @ ss \<and> m = CHR ''/'' # u @ ''.fits''
           \<and> CHR '' '' \<notin> set u \<and> u \<noteq> []"
proof -
  from assms obtain rest b where s: "s = CHR ''/'' # rest"
    and b: "backtrack rest (length (takeWhile (\<lambda>d. d \<noteq> CHR '' '') rest)) = Some b"
    and m: "m = CHR ''/'' # b"
    by (auto simp: match_here_def split: list.splits if_splits)
  from backtrack_Some[OF b] obtain j where j: "1 \<le> j"
    "j \<le> length (takeWhile (\<lambda>d. d \<noteq> CHR '' '') rest)"
    "b = take (j + 5) rest" "take 5 (drop j rest) = ''.fits''" by blast
  let ?u = "take j rest"
  have d: "drop j rest = ''.fits'' @ drop 5 (drop j rest)"
    using take5_split[OF j(4)] .
  have r: "rest = ?u @ ''.fits'' @ drop (j + 5) rest"
  proof -
    have "rest = ?u @ drop j rest" by simp
    also have "drop j rest = ''.fits'' @ drop (j + 5) rest" using d by (simp add: add.commute)
    finally show ?thesis .
  qed
  have "take (j + 5) rest = ?u @ take 5 (drop j rest)"
    by (simp add: take_add)
  with j have bu: "b = ?u @ ''.fits''" by simp
  have "?u = take j (takeWhile (\<lambda>d. d \<noteq> CHR '' '') rest)"
    using j(2) by (metis append_eq_conv_conj append_take_drop_id length_take min.absorb2 takeWhile_dropWhile_id take_append take_all_iff le_refl nat_le_linear)
  then have "set ?u \<subseteq> set (takeWhile (\<lambda>d. d \<noteq> CHR '' '') rest)"
    by (metis set_take_subset)
  then have nosp: "CHR '' '' \<notin> set ?u"
    by (auto dest: set_takeWhileD)
  have "length rest \<ge> j" using j(2) length_takeWhile_le[of "\<lambda>d. d \<noteq> CHR '' ''" rest] by linarith
  with j(1) have "?u \<noteq> []" by auto
  with s m r bu nosp show ?thesis by blast
qed

lemma re_search_Some:
  "re_search s = Some m \<Longrightarrow>
     \<exists>ps u ss. s = ps @ CHR ''/'' # u @ ''.fits'' @ ss \<and> m = CHR ''/'' # u @ ''.fits''
        \<and> CHR '' '' \<notin> set u \<and> u \<noteq> []"
proof (induction s)
  case Nil
  then show ?case by simp
next
  case (Cons c cs)
  show ?case
  proof (cases "match_here (c # cs)")
    case (Some m')
    with Cons.prems have "m' = m" by simp
    with Some match_here_Some[of "c # cs" m] obtain u ss where
      "c # cs = CHR ''/'' # u @ ''.fits'' @ ss" "m = CHR ''/'' # u @ ''.fits''"
      "CHR '' '' \<notin> set u" "u \<noteq> []" by blast
    then show ?thesis by (metis append_Nil)
  next
    case None
    with Cons.prems have "re_search cs = Some m" by simp
    from Cons.IH[OF this] obtain ps u ss where
      "cs = ps @ CHR ''/'' # u @ ''.fits'' @ ss" "m = CHR ''/'' # u @ ''.fits''"
      "CHR '' '' \<notin> set u" "u \<noteq> []" by blast
    then show ?thesis by (metis append_Cons)
  qed
qed

lemma stat_fails_emit: "stat_fails (emit e w) p = stat_fails w p"
  by (simp add: stat_fails_def emit_def)

lemma emit_fields:
  "fs (emit e w) = fs w" "denied (emit e w) = denied w" "readonly (emit e w) = readonly w"
  "ext (emit e w) = ext w"
  by (simp_all add: emit_def)

lemma clean_corrupt_file_cases:
  assumes "clean_corrupt_file err_msg w = (r, w')"
  shows "(r = Inr () \<and> w' = w)
       \<or> (\<exists>p. re_search err_msg = Some p \<and> stat_fails w p \<and> r = Inl (OSError p) \<and> w' = w)
       \<or> (\<exists>p. re_search err_msg = Some p \<and> \<not> stat_fails w p
              \<and> (fs w p = Some Directory \<or> fs w p = Some RegularFile \<and> p \<in> readonly w)
              \<and> r = Inl (OSError p) \<and> w' = emit (Stdout (Removing p)) w)
       \<or> (\<exists>p. re_search err_msg = Some p \<and> \<not> stat_fails w p
              \<and> fs w p = Some RegularFile \<and> p \<notin> readonly w \<and> r = Inr ()
              \<and> w' = emit (Unlinked p) (emit (Stdout (Removing p)) w\<lparr>fs := (fs w)(p := None)\<rparr>))"
proof (cases "re_search err_msg")
  case None
  with assms show ?thesis by (simp add: clean_corrupt_file_def)
next
  case (Some p)
  show ?thesis
  proof (cases "stat_fails w p")
    case True
    with Some assms show ?thesis by (simp add: clean_corrupt_file_def path_exists_def)
  next
    case False
    show ?thesis
    proof (cases "fs w p")
      case None
      with Some False assms show ?thesis by (simp add: clean_corrupt_file_def path_exists_def)
    next
      case (Some k)
      have e: "fs (emit (Stdout (Removing p)) w) = fs w"
        "readonly (emit (Stdout (Removing p)) w) = readonly w"
        by (simp_all add: emit_def)
      from Some \<open>re_search err_msg = Some p\<close> False assms
      have u: "unlink p (emit (Stdout (Removing p)) w) = (r, w')"
        by (simp add: clean_corrupt_file_def path_exists_def)
      show ?thesis
      proof (cases k)
        case RegularFile
        show ?thesis
        proof (cases "p \<in> readonly w")
          case True
          with u Some RegularFile False have "r = Inl (OSError p)"
            "w' = emit (Stdout (Removing p)) w"
            by (simp_all add: unlink_def stat_fails_emit e)
          with \<open>re_search err_msg = Some p\<close> False Some RegularFile True show ?thesis by simp
        next
          case nr: False
          with u Some RegularFile False have "r = Inr ()"
            "w' = emit (Unlinked p) (emit (Stdout (Removing p)) w\<lparr>fs := (fs w)(p := None)\<rparr>)"
            by (simp_all add: unlink_def stat_fails_emit e)
          with \<open>re_search err_msg = Some p\<close> False Some RegularFile nr show ?thesis by simp
        qed
      next
        case Directory
        with u Some False have "r = Inl (OSError p)" "w' = emit (Stdout (Removing p)) w"
          by (simp_all add: unlink_def stat_fails_emit e)
        with \<open>re_search err_msg = Some p\<close> False Some Directory show ?thesis by simp
      qed
    qed
  qed
qed

text \<open>
  C9. One call of the recovery deletes at most one entry of the file system and adds
  none, and leaves the rest of the outside alone. It changes the file system only when
  the message contains a slash, then characters without a space, then \<^verbatim>\<open>.fits\<close>; for a
  message without such a substring nothing changes at all and nothing is raised.
\<close>
theorem clean_corrupt_file_deletes_at_most_one:
  assumes "clean_corrupt_file err_msg w = (r, w')"
  shows "fs w' \<subseteq>\<^sub>m fs w \<and> card (dom (fs w) - dom (fs w')) \<le> 1 \<and> ext w' = ext w
       \<and> (fs w' \<noteq> fs w \<longrightarrow>
            (\<exists>ps u ss. err_msg = ps @ CHR ''/'' # u @ ''.fits'' @ ss \<and> CHR '' '' \<notin> set u))
       \<and> ((\<nexists>ps u ss. err_msg = ps @ CHR ''/'' # u @ ''.fits'' @ ss \<and> CHR '' '' \<notin> set u)
            \<longrightarrow> r = Inr () \<and> w' = w)"
proof -
  have none: "re_search err_msg = None"
    if "\<nexists>ps u ss. err_msg = ps @ CHR ''/'' # u @ ''.fits'' @ ss \<and> CHR '' '' \<notin> set u"
  proof (cases "re_search err_msg")
    case (Some m)
    from re_search_Some[OF this] that show ?thesis by blast
  qed simp
  from clean_corrupt_file_cases[OF assms]
  consider (same) "r = Inr ()" "w' = w"
    | (stat) p where "re_search err_msg = Some p" "w' = w"
    | (dir) p where "re_search err_msg = Some p" "w' = emit (Stdout (Removing p)) w"
    | (del) p where "re_search err_msg = Some p" "fs w p = Some RegularFile"
        "w' = emit (Unlinked p) (emit (Stdout (Removing p)) w\<lparr>fs := (fs w)(p := None)\<rparr>)"
    by blast
  then show ?thesis
  proof cases
    case same
    then show ?thesis by simp
  next
    case stat
    then have "fs w' = fs w" "ext w' = ext w" by simp_all
    moreover from stat none have
      "\<exists>ps u ss. err_msg = ps @ CHR ''/'' # u @ ''.fits'' @ ss \<and> CHR '' '' \<notin> set u"
      by force
    ultimately show ?thesis by simp
  next
    case dir
    then have "fs w' = fs w" "ext w' = ext w" by (simp_all add: emit_def)
    moreover from dir none have
      "\<exists>ps u ss. err_msg = ps @ CHR ''/'' # u @ ''.fits'' @ ss \<and> CHR '' '' \<notin> set u"
      by force
    ultimately show ?thesis by simp
  next
    case del
    then have f: "fs w' = (fs w)(p := None)" and x: "ext w' = ext w"
      by (simp_all add: emit_def)
    have sub: "fs w' \<subseteq>\<^sub>m fs w" unfolding f by (simp add: map_le_def)
    have "dom (fs w) - dom (fs w') = {p}" unfolding f using del(2) by auto
    then have c: "card (dom (fs w) - dom (fs w')) \<le> 1" by simp
    from del none have
      "\<exists>ps u ss. err_msg = ps @ CHR ''/'' # u @ ''.fits'' @ ss \<and> CHR '' '' \<notin> set u"
      by force
    with sub c x show ?thesis by simp
  qed
qed

lemma short_names:
  "\<not> name_too_long ''/tmp/a.fits''" "\<not> name_too_long ''/tmp/b.fits''"
  by code_simp+

theorem clean_corrupt_file_deletes_at_most_one_witness:
  "clean_corrupt_file ''corrupt /tmp/a.fits here''
      \<lparr>fs = [''/tmp/a.fits'' \<mapsto> RegularFile, ''/tmp/b.fits'' \<mapsto> RegularFile],
       denied = {}, readonly = {}, trace = [], ext = ()\<rparr>
    = (Inr (), \<lparr>fs = [''/tmp/b.fits'' \<mapsto> RegularFile], denied = {}, readonly = {},
                trace = [Stdout (Removing ''/tmp/a.fits''), Unlinked ''/tmp/a.fits''], ext = ()\<rparr>)
   \<and> card (dom [''/tmp/a.fits'' \<mapsto> RegularFile, ''/tmp/b.fits'' \<mapsto> RegularFile]
            - dom [''/tmp/b.fits'' \<mapsto> RegularFile]) \<le> 1"
proof -
  have s: "re_search ''corrupt /tmp/a.fits here'' = Some ''/tmp/a.fits''"
    by code_simp
  have e: "clean_corrupt_file ''corrupt /tmp/a.fits here''
      \<lparr>fs = [''/tmp/a.fits'' \<mapsto> RegularFile, ''/tmp/b.fits'' \<mapsto> RegularFile],
       denied = {}, readonly = {}, trace = [], ext = ()\<rparr>
    = (Inr (), \<lparr>fs = [''/tmp/b.fits'' \<mapsto> RegularFile], denied = {}, readonly = {},
                trace = [Stdout (Removing ''/tmp/a.fits''), Unlinked ''/tmp/a.fits''], ext = ()\<rparr>)"
    unfolding clean_corrupt_file_def s
    by (auto simp: path_exists_def unlink_def emit_def stat_fails_def short_names)
  from clean_corrupt_file_deletes_at_most_one[OF e] e show ?thesis by simp
qed

lemma long_name_search: "re_search (''corrupt '' @ long_name) = Some long_name"
  unfolding long_name_def by code_simp

lemma long_name_too_long: "name_too_long long_name"
  unfolding long_name_def by code_simp

text \<open>
  C8, as the specification states it, fails: the recovery is not silent whenever the
  target does not exist. For a message that names a path with a component of 305
  characters, nothing exists at the path, and the call raises the \<open>OSError\<close> of the
  existence test, which \<^verbatim>\<open>Path.exists\<close> raises again for a name that is too long.
\<close>
theorem clean_corrupt_file_missing_target_raises:
  "re_search (''corrupt '' @ long_name) = Some long_name
   \<and> fs \<lparr>fs = Map.empty, denied = {}, readonly = {}, trace = [], ext = ()\<rparr> long_name = None
   \<and> clean_corrupt_file (''corrupt '' @ long_name)
        \<lparr>fs = Map.empty, denied = {}, readonly = {}, trace = [], ext = ()\<rparr>
      = (Inl (OSError long_name),
         \<lparr>fs = Map.empty, denied = {}, readonly = {}, trace = [], ext = ()\<rparr>)"
  unfolding clean_corrupt_file_def long_name_search
  by (simp add: path_exists_def stat_fails_def long_name_too_long)

text \<open>
  C8, amended. The recovery does nothing and raises nothing when the message holds no
  recognisable path, and when the existence test answers that nothing is at the path
  found; a second call on such a message is the same no-op. After any call that
  returned, the one that deleted the file included, a further call on the same message
  changes nothing and raises nothing. A regular file that exists and may be removed is
  deleted by the first call. The existence test is not guarded: when it raises
  (a name that is too long, a directory that may not be searched), the recovery raises
  that error and changes nothing.
\<close>
theorem clean_corrupt_file_idempotent:
  "(re_search err_msg = None \<longrightarrow> clean_corrupt_file err_msg w = (Inr (), w))
   \<and> (\<forall>p. re_search err_msg = Some p \<and> path_exists w p = Inr False \<longrightarrow>
          clean_corrupt_file err_msg w = (Inr (), w)
          \<and> clean_corrupt_file err_msg (snd (clean_corrupt_file err_msg w)) = (Inr (), w))
   \<and> (\<forall>u w'. clean_corrupt_file err_msg w = (Inr u, w') \<longrightarrow>
          clean_corrupt_file err_msg w' = (Inr (), w'))
   \<and> (\<forall>p. re_search err_msg = Some p \<and> path_exists w p = Inr True
            \<and> fs w p = Some RegularFile \<and> p \<notin> readonly w \<longrightarrow>
          clean_corrupt_file err_msg w
            = (Inr (), emit (Unlinked p) (emit (Stdout (Removing p)) w\<lparr>fs := (fs w)(p := None)\<rparr>)))
   \<and> (\<forall>p e. re_search err_msg = Some p \<and> path_exists w p = Inl e \<longrightarrow>
          stat_fails w p \<and> clean_corrupt_file err_msg w = (Inl e, w))"
proof (intro conjI allI impI)
  show "clean_corrupt_file err_msg w = (Inr (), w)" if "re_search err_msg = None"
    using that by (simp add: clean_corrupt_file_def)
next
  fix p assume a: "re_search err_msg = Some p \<and> path_exists w p = Inr False"
  then show 1: "clean_corrupt_file err_msg w = (Inr (), w)"
    by (simp add: clean_corrupt_file_def)
  then show "clean_corrupt_file err_msg (snd (clean_corrupt_file err_msg w)) = (Inr (), w)"
    by simp
next
  fix u w' assume a: "clean_corrupt_file err_msg w = (Inr u, w')"
  from clean_corrupt_file_cases[OF a]
  consider "w' = w"
    | p where "re_search err_msg = Some p" "\<not> stat_fails w p"
        "w' = emit (Unlinked p) (emit (Stdout (Removing p)) w\<lparr>fs := (fs w)(p := None)\<rparr>)"
    by blast
  then show "clean_corrupt_file err_msg w' = (Inr (), w')"
  proof cases
    case 1
    with a show ?thesis by simp
  next
    case 2
    then have "fs w' p = None" "\<not> stat_fails w' p" by (simp_all add: emit_def stat_fails_def)
    with 2(1) show ?thesis by (simp add: clean_corrupt_file_def path_exists_def)
  qed
next
  fix p assume a: "re_search err_msg = Some p \<and> path_exists w p = Inr True
            \<and> fs w p = Some RegularFile \<and> p \<notin> readonly w"
  then have "\<not> stat_fails w p" by (auto simp: path_exists_def split: if_splits)
  with a show "clean_corrupt_file err_msg w
            = (Inr (), emit (Unlinked p) (emit (Stdout (Removing p)) w\<lparr>fs := (fs w)(p := None)\<rparr>))"
    by (simp add: clean_corrupt_file_def unlink_def stat_fails_emit emit_fields)
next
  fix p e assume a: "re_search err_msg = Some p \<and> path_exists w p = Inl e"
  then show "stat_fails w p" by (auto simp: path_exists_def split: if_splits)
  from a show "clean_corrupt_file err_msg w = (Inl e, w)"
    by (simp add: clean_corrupt_file_def)
qed

theorem clean_corrupt_file_idempotent_witness:
  "clean_corrupt_file ''corrupt /tmp/a.fits here''
      \<lparr>fs = [''/tmp/b.fits'' \<mapsto> RegularFile], denied = {}, readonly = {}, trace = [], ext = ()\<rparr>
    = (Inr (), \<lparr>fs = [''/tmp/b.fits'' \<mapsto> RegularFile], denied = {}, readonly = {},
                trace = [], ext = ()\<rparr>)
   \<and> clean_corrupt_file ''no path in this message''
      \<lparr>fs = [''/tmp/b.fits'' \<mapsto> RegularFile], denied = {}, readonly = {}, trace = [], ext = ()\<rparr>
    = (Inr (), \<lparr>fs = [''/tmp/b.fits'' \<mapsto> RegularFile], denied = {}, readonly = {},
                trace = [], ext = ()\<rparr>)
   \<and> clean_corrupt_file ''corrupt /tmp/b.fits here''
      \<lparr>fs = [''/tmp/b.fits'' \<mapsto> RegularFile], denied = {}, readonly = {}, trace = [], ext = ()\<rparr>
    = (Inr (), \<lparr>fs = Map.empty, denied = {}, readonly = {},
                trace = [Stdout (Removing ''/tmp/b.fits''), Unlinked ''/tmp/b.fits''], ext = ()\<rparr>)
   \<and> clean_corrupt_file ''corrupt /tmp/b.fits here''
      \<lparr>fs = Map.empty, denied = {}, readonly = {},
       trace = [Stdout (Removing ''/tmp/b.fits''), Unlinked ''/tmp/b.fits''], ext = ()\<rparr>
    = (Inr (), \<lparr>fs = Map.empty, denied = {}, readonly = {},
                trace = [Stdout (Removing ''/tmp/b.fits''), Unlinked ''/tmp/b.fits''], ext = ()\<rparr>)
   \<and> clean_corrupt_file ''corrupt /tmp/b.fits here''
      \<lparr>fs = Map.empty, denied = {''/tmp/b.fits''}, readonly = {}, trace = [], ext = ()\<rparr>
    = (Inl (OSError ''/tmp/b.fits''),
       \<lparr>fs = Map.empty, denied = {''/tmp/b.fits''}, readonly = {}, trace = [], ext = ()\<rparr>)"
proof -
  let ?w = "\<lparr>fs = [''/tmp/b.fits'' \<mapsto> RegularFile], denied = {}, readonly = {},
             trace = [], ext = ()\<rparr>"
  let ?d = "\<lparr>fs = Map.empty, denied = {''/tmp/b.fits''}, readonly = {}, trace = [], ext = ()\<rparr>"
  have s: "re_search ''corrupt /tmp/a.fits here'' = Some ''/tmp/a.fits''"
    by code_simp
  have n: "re_search ''no path in this message'' = None"
    by code_simp
  have b: "re_search ''corrupt /tmp/b.fits here'' = Some ''/tmp/b.fits''"
    by code_simp
  have x: "path_exists ?w ''/tmp/a.fits'' = Inr False"
    by (simp add: path_exists_def stat_fails_def short_names)
  have y: "path_exists ?w ''/tmp/b.fits'' = Inr True" "fs ?w ''/tmp/b.fits'' = Some RegularFile"
    "''/tmp/b.fits'' \<notin> readonly ?w"
    by (simp_all add: path_exists_def stat_fails_def short_names)
  have z: "path_exists ?d ''/tmp/b.fits'' = Inl (OSError ''/tmp/b.fits'')"
    by (simp add: path_exists_def stat_fails_def)
  from clean_corrupt_file_idempotent[of "''corrupt /tmp/a.fits here''" ?w] s x
  have 1: "clean_corrupt_file ''corrupt /tmp/a.fits here'' ?w = (Inr (), ?w)"
    by blast
  from clean_corrupt_file_idempotent[of "''no path in this message''" ?w] n
  have 2: "clean_corrupt_file ''no path in this message'' ?w = (Inr (), ?w)"
    by blast
  from clean_corrupt_file_idempotent[of "''corrupt /tmp/b.fits here''" ?w] b y
  have 3: "clean_corrupt_file ''corrupt /tmp/b.fits here'' ?w
    = (Inr (), emit (Unlinked ''/tmp/b.fits'')
                 (emit (Stdout (Removing ''/tmp/b.fits'')) ?w\<lparr>fs := (fs ?w)(''/tmp/b.fits'' := None)\<rparr>))"
    by blast
  have t3: "emit (Unlinked ''/tmp/b.fits'')
                 (emit (Stdout (Removing ''/tmp/b.fits'')) ?w\<lparr>fs := (fs ?w)(''/tmp/b.fits'' := None)\<rparr>)
     = \<lparr>fs = Map.empty, denied = {}, readonly = {},
        trace = [Stdout (Removing ''/tmp/b.fits''), Unlinked ''/tmp/b.fits''], ext = ()\<rparr>"
    by (simp add: emit_def)
  from clean_corrupt_file_idempotent[of "''corrupt /tmp/b.fits here''" ?w] 3[unfolded t3]
  have 4: "clean_corrupt_file ''corrupt /tmp/b.fits here''
      \<lparr>fs = Map.empty, denied = {}, readonly = {},
        trace = [Stdout (Removing ''/tmp/b.fits''), Unlinked ''/tmp/b.fits''], ext = ()\<rparr>
    = (Inr (), \<lparr>fs = Map.empty, denied = {}, readonly = {},
        trace = [Stdout (Removing ''/tmp/b.fits''), Unlinked ''/tmp/b.fits''], ext = ()\<rparr>)"
    by blast
  from clean_corrupt_file_idempotent[of "''corrupt /tmp/b.fits here''" ?d] b z
  have 5: "clean_corrupt_file ''corrupt /tmp/b.fits here'' ?d = (Inl (OSError ''/tmp/b.fits''), ?d)"
    by blast
  from 1 2 3[unfolded t3] 4 5 show ?thesis by (intro conjI)
qed

section \<open>Properties of the periodogram request\<close>

lemma fl_min: "float_mul (float_div 1 2000) 86400 = fl (432 / 10)"
  unfolding float_mul_def float_div_def by code_simp

lemma fl_max: "float_mul (float_div 1 50) 86400 = 1728"
  unfolding float_mul_def float_div_def by code_simp

lemma fl_div_min: "float_div 86400 2000 = fl (432 / 10)"
  unfolding float_div_def by code_simp

lemma fl_div_max: "float_div 86400 50 = 1728"
  unfolding float_div_def by code_simp

text \<open>
  C6. The request that \<^verbatim>\<open>plot_periodogram\<close> passes to the Lomb-Scargle periodogram has
  the minimum frequency \<^verbatim>\<open>86400/2000\<close> and the maximum frequency \<^verbatim>\<open>86400/50\<close> as
  doubles: the two roundings of \<^verbatim>\<open>1 / max_p * 86400\<close> end on the double nearest to
  43.2, which is the value of the literal \<^verbatim>\<open>43.2\<close>, and \<^verbatim>\<open>1 / min_p * 86400\<close> ends on
  1728 exactly. The oversample factor is 5 and the method is Lomb-Scargle. Whatever the
  library is, the outcome of \<^verbatim>\<open>plot_periodogram\<close> is the outcome of the library's
  periodogram of the light curve for exactly this request: its error is the error
  raised, and its periodogram is the one that is plotted.
\<close>
theorem plot_periodogram_band:
  "periodogram_request =
     \<lparr>pg_method = ''lombscargle'', minimum_frequency = float_div 86400 2000,
      maximum_frequency = float_div 86400 50, oversample_factor = 5\<rparr>
   \<and> minimum_frequency periodogram_request = fl (432 / 10)
   \<and> maximum_frequency periodogram_request = 1728
   \<and> oversample_factor periodogram_request = 5
   \<and> (\<exists>rest. trace (snd (plot_periodogram L lc gaia_id w))
                = trace w @ ToPeriodogram periodogram_request # rest)
   \<and> plot_periodogram L lc gaia_id w =
       (case to_periodogram L lc
               \<lparr>pg_method = ''lombscargle'', minimum_frequency = fl (432 / 10),
                maximum_frequency = 1728, oversample_factor = 5\<rparr> of
          Inl e \<Rightarrow> (Inl e, emit (ToPeriodogram periodogram_request) w)
        | Inr pg \<Rightarrow>
            (case run_call (plotting L pg gaia_id)
                    (emit (PlotStarted gaia_id) (emit (ToPeriodogram periodogram_request) w)) of
               (Inl e, w2) \<Rightarrow> (Inl e, w2)
             | (Inr u, w2) \<Rightarrow> (Inr (), emit (PlotShown gaia_id) w2)))"
proof -
  have r: "periodogram_request =
     \<lparr>pg_method = ''lombscargle'', minimum_frequency = fl (432 / 10),
      maximum_frequency = 1728, oversample_factor = 5\<rparr>"
    unfolding periodogram_request_def Let_def fl_min fl_max ..
  have t: "\<exists>rest. trace (snd (plot_periodogram L lc gaia_id w))
                = trace w @ ToPeriodogram periodogram_request # rest"
    unfolding plot_periodogram_def Let_def run_call_def
    by (auto simp: emit_def split: sum.split prod.split)
  have a: "periodogram_request =
     \<lparr>pg_method = ''lombscargle'', minimum_frequency = float_div 86400 2000,
      maximum_frequency = float_div 86400 50, oversample_factor = 5\<rparr>"
    unfolding fl_div_min fl_div_max by (rule r)
  have b: "minimum_frequency periodogram_request = fl (432 / 10)"
    "maximum_frequency periodogram_request = 1728"
    "oversample_factor periodogram_request = 5"
    unfolding r by simp_all
  have c: "plot_periodogram L lc gaia_id w =
       (case to_periodogram L lc
               \<lparr>pg_method = ''lombscargle'', minimum_frequency = fl (432 / 10),
                maximum_frequency = 1728, oversample_factor = 5\<rparr> of
          Inl e \<Rightarrow> (Inl e, emit (ToPeriodogram periodogram_request) w)
        | Inr pg \<Rightarrow>
            (case run_call (plotting L pg gaia_id)
                    (emit (PlotStarted gaia_id) (emit (ToPeriodogram periodogram_request) w)) of
               (Inl e, w2) \<Rightarrow> (Inl e, w2)
             | (Inr u, w2) \<Rightarrow> (Inr (), emit (PlotShown gaia_id) w2)))"
    unfolding plot_periodogram_def Let_def r[symmetric] ..
  from a b t c show ?thesis by (intro conjI)
qed

section \<open>Properties of the search\<close>

lemma search_step:
  assumes "\<forall>e f x. \<exists>f' x'. search_lightcurve L tic ''TESS'' e (f, x) = (Inr (res e), f', x')"
  shows "\<exists>w1. run_call (search_lightcurve L tic ''TESS'' e) (emit (SearchLightcurve ''TESS'' e) w)
              = (Inr (res e), w1)
            \<and> trace w1 = trace w @ [SearchLightcurve ''TESS'' e]"
proof -
  from assms obtain f' x' where
    "search_lightcurve L tic ''TESS'' e (fs w, ext w) = (Inr (res e), f', x')" by blast
  then show ?thesis by (simp add: run_call_def emit_def)
qed

lemma search_loop_pure:
  assumes "\<forall>e f x. \<exists>f' x'. search_lightcurve L tic ''TESS'' e (f, x) = (Inr (res e), f', x')"
  shows "fst (search_loop L tic es w)
           = Inr (case find (\<lambda>e. len_srch (res e) > 0) es of
                    Some e \<Rightarrow> res e | None \<Rightarrow> empty_searchresult)
       \<and> trace (snd (search_loop L tic es w))
           = trace w
             @ map (SearchLightcurve ''TESS'') (takeWhile (\<lambda>e. len_srch (res e) = 0) es)
             @ (case find (\<lambda>e. len_srch (res e) > 0) es of
                  Some e \<Rightarrow> [SearchLightcurve ''TESS'' e, Stdout (Found (len_srch (res e)) e)]
                | None \<Rightarrow> [])"
proof (induction es arbitrary: w)
  case Nil
  show ?case by simp
next
  case (Cons e es)
  from search_step[OF assms, of e w] obtain w1 where
    w1: "run_call (search_lightcurve L tic ''TESS'' e) (emit (SearchLightcurve ''TESS'' e) w)
              = (Inr (res e), w1)"
        "trace w1 = trace w @ [SearchLightcurve ''TESS'' e]" by blast
  show ?case
  proof (cases "len_srch (res e) > 0")
    case True
    with w1 show ?thesis by (simp add: emit_def)
  next
    case False
    with w1 have "search_loop L tic (e # es) w = search_loop L tic es w1" by simp
    with Cons.IH[of w1] w1(2) False show ?thesis by simp
  qed
qed

text \<open>
  C7. When the archive search answers each cadence with a batch that depends on the
  cadence only, \<^verbatim>\<open>search_tess_lc\<close> asks for 20 s, then 120 s, then 1800 s, stops at
  the first cadence whose batch is not empty and returns that batch as it is, with no
  row of another cadence; when the three batches are empty it has asked all three and
  returns the empty batch as a value, not as an exception.
\<close>
theorem search_tess_lc_first_nonempty:
  assumes "\<forall>e f x. \<exists>f' x'. search_lightcurve L tic ''TESS'' e (f, x) = (Inr (res e), f', x')"
  shows "fst (search_tess_lc L tic w)
           = Inr (if len_srch (res 20) > 0 then res 20
                  else if len_srch (res 120) > 0 then res 120
                  else if len_srch (res 1800) > 0 then res 1800
                  else empty_searchresult)
       \<and> trace (snd (search_tess_lc L tic w))
           = trace w @
             (if len_srch (res 20) > 0
              then [SearchLightcurve ''TESS'' 20, Stdout (Found (len_srch (res 20)) 20)]
              else if len_srch (res 120) > 0
              then [SearchLightcurve ''TESS'' 20, SearchLightcurve ''TESS'' 120,
                    Stdout (Found (len_srch (res 120)) 120)]
              else if len_srch (res 1800) > 0
              then [SearchLightcurve ''TESS'' 20, SearchLightcurve ''TESS'' 120,
                    SearchLightcurve ''TESS'' 1800, Stdout (Found (len_srch (res 1800)) 1800)]
              else [SearchLightcurve ''TESS'' 20, SearchLightcurve ''TESS'' 120,
                    SearchLightcurve ''TESS'' 1800])"
  using search_loop_pure[OF assms, of "[20, 120, 1800]" w]
  unfolding search_tess_lc_def by simp

theorem search_tess_lc_first_nonempty_witness:
  "(\<forall>e f x. \<exists>f' x'. search_lightcurve (demo_lib [''good'', ''flaky'']) 7 ''TESS'' e (f, x)
        = (Inr (demo_res [''good'', ''flaky''] e), f', x'))
   \<and> fst (search_tess_lc (demo_lib [''good'', ''flaky'']) 7 demo_world)
       = Inr \<lparr>sr_table = [], sr_rows = [''good'', ''flaky'']\<rparr>
   \<and> trace (snd (search_tess_lc (demo_lib [''good'', ''flaky'']) 7 demo_world))
       = [SearchLightcurve ''TESS'' 20, SearchLightcurve ''TESS'' 120, Stdout (Found 2 120)]
   \<and> fst (search_tess_lc (demo_lib []) 7 demo_world) = Inr empty_searchresult
   \<and> trace (snd (search_tess_lc (demo_lib []) 7 demo_world))
       = [SearchLightcurve ''TESS'' 20, SearchLightcurve ''TESS'' 120,
          SearchLightcurve ''TESS'' 1800]"
proof -
  have h: "\<forall>e f x. \<exists>f' x'. search_lightcurve (demo_lib ps) 7 ''TESS'' e (f, x)
        = (Inr (demo_res ps e), f', x')" for ps
    by (simp add: demo_lib_def)
  from search_tess_lc_first_nonempty[OF h, of "[''good'', ''flaky'']" demo_world]
    search_tess_lc_first_nonempty[OF h, of "[]" demo_world] h
  show ?thesis
    by (simp add: demo_res_def len_srch_def empty_searchresult_def demo_world_def)
qed

section \<open>Properties of the stitch pipeline\<close>

lemma run_call_trace: "run_call c w = (r, w') \<Longrightarrow> trace w' = trace w"
  by (auto simp: run_call_def split: prod.splits)

lemma try_body_trace: "try_body L prd w = (r, w') \<Longrightarrow> trace w' = trace w"
  by (auto simp: try_body_def split: prod.splits sum.splits dest: run_call_trace)

lemma clean_corrupt_file_trace:
  assumes "clean_corrupt_file m w = (r, w')"
  shows "\<exists>c. trace w' = trace w @ c \<and> list_all no_attempt c"
  using clean_corrupt_file_cases[OF assms] by (auto simp: emit_def)


lemma no_attempt_filter: "list_all no_attempt c \<Longrightarrow> filter (is_attempt j) c = []"
  by (induction c) (auto elim: no_attempt.elims)

lemma no_attempt_notin: "list_all no_attempt c \<Longrightarrow> Attempted i a x \<notin> set c"
  by (induction c) auto

lemma no_attempt_lk_failure: "no_attempt e \<Longrightarrow> lk_failure e = None"
  by (cases e) (auto simp: lk_failure_def)

lemma no_attempt_other_failure: "no_attempt e \<Longrightarrow> other_failure e = None"
  by (cases e) (auto simp: other_failure_def)

lemma take2_append: "take 2 xs = [a, b] \<Longrightarrow> take 2 (xs @ ys) = [a, b]"
proof -
  assume t: "take 2 xs = [a, b]"
  then have "length (take 2 xs) = 2" by simp
  then have "2 \<le> length xs" by simp
  with t show ?thesis by simp
qed

lemma cleanup_follows_append:
  "cleanup_follows n xs \<Longrightarrow> cleanup_follows n ys \<Longrightarrow> cleanup_follows n (xs @ ys)"
  by (induction xs) (auto split: option.splits simp: take2_append simp del: take_append)

lemma no_attempt_cleanup_follows: "list_all no_attempt c \<Longrightarrow> cleanup_follows n c"
  by (induction c) (auto simp: no_attempt_lk_failure)

lemma propagates_at_once_Inr_append:
  "propagates_at_once (Inr x :: exn + 'a) xs \<Longrightarrow> propagates_at_once (r :: exn + 'b) ys
     \<Longrightarrow> propagates_at_once r (xs @ ys)"
  by (induction xs) (auto split: option.splits)

lemma propagates_at_once_no_other:
  "list_all (\<lambda>e. other_failure e = None) xs \<Longrightarrow> propagates_at_once r ys
     \<Longrightarrow> propagates_at_once r (xs @ ys)"
  by (induction xs) auto

lemma propagates_at_once_Inl:
  "propagates_at_once (Inl e :: exn + 'a) xs \<Longrightarrow> propagates_at_once (Inl e :: exn + 'b) xs"
  by (induction xs) (auto split: option.splits)

lemma no_attempt_no_other:
  "list_all no_attempt c \<Longrightarrow> list_all (\<lambda>e. other_failure e = None) c"
  by (induction c) (auto simp: no_attempt_other_failure)

lemma try_body_produced:
  "try_body L prd w = (Inr lc1, w1) \<Longrightarrow> produced_from L prd lc1"
  unfolding try_body_def run_call_def produced_from_def
  by (auto split: prod.splits sum.splits) blast

lemma attempt_loop_events:
  assumes "attempt_loop L i n prd as lc w = (r, w')"
  shows "\<exists>new. trace w' = trace w @ new
     \<and> attempts_at i new \<le> length as
     \<and> (\<forall>j. j \<noteq> i \<longrightarrow> attempts_at j new = 0)
     \<and> cleanup_follows n new
     \<and> propagates_at_once r new
     \<and> (\<forall>e. Attempted i 2 (Some e) \<in> set new \<longrightarrow> r = Inl e \<or> (\<exists>p. r = Inl (OSError p)))
     \<and> (\<forall>x. r = Inr x \<longrightarrow>
           (\<exists>a v. Attempted i a None \<in> set new \<and> x = Some v \<and> produced_from L prd v)
           \<or> (2 \<notin> set as \<and> x = lc))"
  using assms
proof (induction as arbitrary: w r w')
  case Nil
  then show ?case by (auto simp: attempts_at_def)
next
  case (Cons a as)
  obtain t w1 where tb: "try_body L prd w = (t, w1)" by force
  have tr1: "trace w1 = trace w" using try_body_trace[OF tb] .
  show ?case
  proof (cases t)
    case (Inr lc1)
    with Cons.prems tb have "r = Inr (Some lc1)" "w' = emit (Attempted i a None) w1"
      by simp_all
    moreover have "produced_from L prd lc1"
      using try_body_produced[OF tb[unfolded Inr]] .
    ultimately show ?thesis using tr1
      by (intro exI[of _ "[Attempted i a None]"])
         (simp add: emit_def attempts_at_def lk_failure_def other_failure_def)
  next
    case (Inl e)
    show ?thesis
    proof (cases "is_LightkurveError e")
      case False
      with Cons.prems tb Inl have "r = Inl e" "w' = emit (Attempted i a (Some e)) w1"
        by simp_all
      with tr1 False show ?thesis
        by (intro exI[of _ "[Attempted i a (Some e)]"])
           (cases e; simp add: emit_def attempts_at_def lk_failure_def other_failure_def)
    next
      case True
      then obtain m where e: "e = LightkurveError m" by (cases e) auto
      let ?w2 = "emit (CleanCall m) (emit (Stdout (ReadFailed i n a)) (emit (Attempted i a (Some e)) w1))"
      let ?h = "[Attempted i a (Some (LightkurveError m)), Stdout (ReadFailed i n a), CleanCall m]"
      obtain rc w3 where cl: "clean_corrupt_file m ?w2 = (rc, w3)" by force
      from clean_corrupt_file_trace[OF cl] obtain c where
        c: "trace w3 = trace ?w2 @ c" "list_all no_attempt c" by blast
      have tr3: "trace w3 = trace w @ ?h @ c" using c(1) tr1 e by (simp add: emit_def)
      have cnt: "attempts_at i (?h @ c) = 1" "\<And>j. j \<noteq> i \<Longrightarrow> attempts_at j (?h @ c) = 0"
        using c(2) by (simp_all add: attempts_at_def no_attempt_filter)
      have cfh: "cleanup_follows n (?h @ c)"
        using no_attempt_cleanup_follows[OF c(2)] by (simp add: lk_failure_def)
      have cf: "\<And>ys. cleanup_follows n ys \<Longrightarrow> cleanup_follows n (?h @ c @ ys)"
        using cleanup_follows_append[OF cfh] by simp
      have noh: "list_all (\<lambda>e. other_failure e = None) (?h @ c)"
        using no_attempt_no_other[OF c(2)] by (simp add: other_failure_def)
      have pr: "\<And>ys q. propagates_at_once q ys \<Longrightarrow> propagates_at_once q (?h @ c @ ys)"
        using propagates_at_once_no_other[OF noh] by simp
      have stop: "?thesis" if "r = Inl e'" "w' = w3" "a = 2 \<longrightarrow> e' = e \<or> (\<exists>p. e' = OSError p)" for e'
      proof -
        have "cleanup_follows n (?h @ c)" using cf[of "[]"] by simp
        moreover have "propagates_at_once r (?h @ c)" using pr[of r "[]"] by simp
        moreover have "\<forall>x. Attempted i 2 (Some x) \<in> set (?h @ c)
                     \<longrightarrow> r = Inl x \<or> (\<exists>p. r = Inl (OSError p))"
          using that e no_attempt_notin[OF c(2)] by auto
        ultimately show ?thesis
          using that(1,2) tr3 cnt by (intro exI[of _ "?h @ c"]) simp
      qed
      show ?thesis
      proof (cases rc)
        case (Inl e1)
        with Cons.prems tb \<open>t = Inl e\<close> e cl have "r = Inl e1" "w' = w3" by simp_all
        moreover have "\<exists>p. e1 = OSError p"
          using clean_corrupt_file_cases[OF cl] Inl by auto
        ultimately show ?thesis by (intro stop) auto
      next
        case (Inr u)
        show ?thesis
        proof (cases "a = 2")
          case True
          with Cons.prems tb \<open>t = Inl e\<close> e cl Inr have "r = Inl e" "w' = w3" by simp_all
          then show ?thesis by (intro stop) auto
        next
          case False
          with Cons.prems tb \<open>t = Inl e\<close> e cl Inr
          have rec: "attempt_loop L i n prd as lc w3 = (r, w')" by simp
          from Cons.IH[OF rec] obtain new where new:
            "trace w' = trace w3 @ new" "attempts_at i new \<le> length as"
            "\<forall>j. j \<noteq> i \<longrightarrow> attempts_at j new = 0" "cleanup_follows n new"
            "propagates_at_once r new"
            "\<forall>e. Attempted i 2 (Some e) \<in> set new \<longrightarrow> r = Inl e \<or> (\<exists>p. r = Inl (OSError p))"
            "\<forall>x. r = Inr x \<longrightarrow>
               (\<exists>a v. Attempted i a None \<in> set new \<and> x = Some v \<and> produced_from L prd v)
               \<or> (2 \<notin> set as \<and> x = lc)"
            by blast
          have 1: "trace w' = trace w @ (?h @ c @ new)" using new(1) tr3 by simp
          have 2: "attempts_at i (?h @ c @ new) \<le> length (a # as)"
            using new(2) c(2) by (simp add: attempts_at_def no_attempt_filter)
          have 3: "\<forall>j. j \<noteq> i \<longrightarrow> attempts_at j (?h @ c @ new) = 0"
            using new(3) c(2) by (simp add: attempts_at_def no_attempt_filter)
          have 4: "cleanup_follows n (?h @ c @ new)" using cf new(4) by blast
          have 5: "propagates_at_once r (?h @ c @ new)" using pr new(5) by blast
          have 6: "\<forall>e. Attempted i 2 (Some e) \<in> set (?h @ c @ new)
                     \<longrightarrow> r = Inl e \<or> (\<exists>p. r = Inl (OSError p))"
            using new(6) False no_attempt_notin[OF c(2)] by auto
          have 7: "\<forall>x. r = Inr x \<longrightarrow>
               (\<exists>a v. Attempted i a None \<in> set (?h @ c @ new) \<and> x = Some v
                  \<and> produced_from L prd v)
               \<or> (2 \<notin> set (a # as) \<and> x = lc)"
            using new(7) False by auto
          from 1 2 3 4 5 6 7 show ?thesis by blast
        qed
      qed
    qed
  qed
qed

lemma attempts_at_pos: "Attempted j a x \<in> set new \<Longrightarrow> 0 < attempts_at j new"
  unfolding attempts_at_def by (induction new) auto

lemma attempt_loop_first:
  assumes "attempt_loop L i n prd (a # as) lc w = (r, w')"
  shows "\<exists>x rest. trace w' = trace w @ Attempted i a x # rest
           \<and> (rest \<noteq> [] \<longrightarrow> (\<exists>m. x = Some (LightkurveError m)))"
proof -
  obtain t w1 where tb: "try_body L prd w = (t, w1)" by force
  have tr1: "trace w1 = trace w" using try_body_trace[OF tb] .
  show ?thesis
  proof (cases t)
    case (Inr lc1)
    with assms tb have "w' = emit (Attempted i a None) w1" by simp
    with tr1 show ?thesis by (simp add: emit_def)
  next
    case (Inl e)
    show ?thesis
    proof (cases "is_LightkurveError e")
      case False
      with assms tb Inl have "w' = emit (Attempted i a (Some e)) w1" by simp
      with tr1 show ?thesis by (simp add: emit_def)
    next
      case True
      then obtain m where e: "e = LightkurveError m" by (cases e) auto
      let ?w2 = "emit (CleanCall m) (emit (Stdout (ReadFailed i n a)) (emit (Attempted i a (Some e)) w1))"
      obtain rc w3 where cl: "clean_corrupt_file m ?w2 = (rc, w3)" by force
      from clean_corrupt_file_trace[OF cl] obtain c where
        c: "trace w3 = trace ?w2 @ c" by blast
      have tr3: "trace w3 = trace w @ Attempted i a (Some (LightkurveError m))
                    # ([Stdout (ReadFailed i n a), CleanCall m] @ c)"
        using c tr1 e by (simp add: emit_def)
      have "w' = w3 \<or> attempt_loop L i n prd as lc w3 = (r, w')"
        using assms tb Inl e cl by (auto split: sum.splits if_splits)
      then show ?thesis
      proof
        assume "w' = w3"
        with tr3 show ?thesis by blast
      next
        assume "attempt_loop L i n prd as lc w3 = (r, w')"
        from attempt_loop_events[OF this] obtain new where "trace w' = trace w3 @ new"
          by (elim exE conjE) (rule that)
        with tr3 have "trace w' = trace w @ Attempted i a (Some (LightkurveError m))
                    # ([Stdout (ReadFailed i n a), CleanCall m] @ c @ new)" by simp
        then show ?thesis by blast
      qed
    qed
  qed
qed

lemma attempt_loop_retry_only:
  assumes "attempt_loop L i n prd [1, 2] lc w = (r, w')" "trace w' = trace w @ new"
    "Attempted j 2 x \<in> set new"
  shows "\<exists>m. Attempted j 1 (Some (LightkurveError m)) \<in> set new"
proof -
  from attempt_loop_first[OF assms(1)] assms(2) obtain y rest where
    n: "new = Attempted i 1 y # rest" "rest \<noteq> [] \<longrightarrow> (\<exists>m. y = Some (LightkurveError m))"
    by auto
  from attempt_loop_events[OF assms(1)] assms(2) have "\<forall>j. j \<noteq> i \<longrightarrow> attempts_at j new = 0"
    by auto
  with attempts_at_pos[OF assms(3)] have ji: "j = i" by force
  from assms(3) n(1) have "rest \<noteq> []" by auto
  with n ji show ?thesis by auto
qed

lemma item_loop_events:
  assumes "item_loop L n items lc lcs w = (r, w')" "distinct (map fst items)"
  shows "\<exists>new. trace w' = trace w @ new
     \<and> (\<forall>i. attempts_at i new \<le> (if i \<in> fst ` set items then 2 else 0))
     \<and> cleanup_follows n new
     \<and> propagates_at_once r new
     \<and> (\<forall>i e. Attempted i 2 (Some e) \<in> set new \<longrightarrow> r = Inl e \<or> (\<exists>p. r = Inl (OSError p)))
     \<and> (\<forall>i x. Attempted i 2 x \<in> set new \<longrightarrow>
            (\<exists>m. Attempted i 1 (Some (LightkurveError m)) \<in> set new))
     \<and> (\<forall>out. r = Inr out \<longrightarrow>
            (\<exists>got. out = lcs @ got \<and> list_all2 (\<lambda>item v. produced_from L (snd item) v) items got)
            \<and> (\<forall>i \<in> fst ` set items. \<exists>a. Attempted i a None \<in> set new))"
  using assms
proof (induction items arbitrary: lc lcs w r w')
  case Nil
  then show ?case by (auto simp: attempts_at_def)
next
  case (Cons item items)
  obtain i prd where item: "item = (i, prd)" by force
  obtain r1 w1 where al: "attempt_loop L i n prd [1, 2] lc w = (r1, w1)" by force
  from attempt_loop_events[OF al] obtain new1 where new1:
    "trace w1 = trace w @ new1" "attempts_at i new1 \<le> length [1, 2::nat]"
    "\<forall>j. j \<noteq> i \<longrightarrow> attempts_at j new1 = 0" "cleanup_follows n new1"
    "propagates_at_once r1 new1"
    "\<forall>e. Attempted i 2 (Some e) \<in> set new1 \<longrightarrow> r1 = Inl e \<or> (\<exists>p. r1 = Inl (OSError p))"
    "\<forall>x. r1 = Inr x \<longrightarrow>
       (\<exists>a v. Attempted i a None \<in> set new1 \<and> x = Some v \<and> produced_from L prd v)
       \<or> (2 \<notin> set [1, 2::nat] \<and> x = lc)"
    by blast
  have le2: "attempts_at i new1 \<le> 2" using new1(2) by simp
  have only1: "\<And>j a x. Attempted j a x \<in> set new1 \<Longrightarrow> j = i"
    using new1(3) attempts_at_pos by force
  have retry1: "\<And>j x. Attempted j 2 x \<in> set new1 \<Longrightarrow>
      \<exists>m. Attempted j 1 (Some (LightkurveError m)) \<in> set new1"
    using attempt_loop_retry_only[OF al new1(1)] by blast
  show ?case
  proof (cases r1)
    case (Inl e)
    with Cons.prems(1) item al have rw: "r = Inl e" "w' = w1" by simp_all
    have 2: "\<forall>j. attempts_at j new1 \<le> (if j \<in> fst ` set (item # items) then 2 else 0)"
      using le2 new1(3) item by auto
    have 4: "propagates_at_once r new1"
      using propagates_at_once_Inl[OF new1(5)[unfolded Inl]] rw by simp
    have 5: "\<forall>j x. Attempted j 2 (Some x) \<in> set new1 \<longrightarrow> r = Inl x \<or> (\<exists>p. r = Inl (OSError p))"
    proof (intro allI impI)
      fix j x assume a: "Attempted j 2 (Some x) \<in> set new1"
      then have "j = i" by (rule only1)
      with a new1(6) have "r1 = Inl x \<or> (\<exists>p. r1 = Inl (OSError p))" by blast
      with Inl rw show "r = Inl x \<or> (\<exists>p. r = Inl (OSError p))" by auto
    qed
    have 6: "\<forall>i x. Attempted i 2 x \<in> set new1 \<longrightarrow>
            (\<exists>m. Attempted i 1 (Some (LightkurveError m)) \<in> set new1)"
      using retry1 by blast
    have 7: "\<forall>out. r = Inr out \<longrightarrow>
            (\<exists>got. out = lcs @ got
                \<and> list_all2 (\<lambda>item v. produced_from L (snd item) v) (item # items) got)
            \<and> (\<forall>i \<in> fst ` set (item # items). \<exists>a. Attempted i a None \<in> set new1)"
      using rw by simp
    have 1: "trace w' = trace w @ new1" using rw new1(1) by simp
    from 1 2 new1(4) 4 5 6 7 show ?thesis
      by (intro exI[of _ new1] conjI) assumption+
  next
    case (Inr x)
    with new1(7) obtain a v where v: "Attempted i a None \<in> set new1" "x = Some v"
      "produced_from L prd v" by auto
    with Cons.prems(1) item al Inr
    have rec: "item_loop L n items (Some v) (lcs @ [v]) w1 = (r, w')" by simp
    from Cons.prems(2) have d: "distinct (map fst items)" and ni: "i \<notin> fst ` set items"
      using item by auto
    from Cons.IH[OF rec d] obtain new where new:
      "trace w' = trace w1 @ new"
      "\<forall>j. attempts_at j new \<le> (if j \<in> fst ` set items then 2 else 0)"
      "cleanup_follows n new" "propagates_at_once r new"
      "\<forall>i e. Attempted i 2 (Some e) \<in> set new \<longrightarrow> r = Inl e \<or> (\<exists>p. r = Inl (OSError p))"
      "\<forall>i x. Attempted i 2 x \<in> set new \<longrightarrow>
            (\<exists>m. Attempted i 1 (Some (LightkurveError m)) \<in> set new)"
      "\<forall>out. r = Inr out \<longrightarrow>
            (\<exists>got. out = (lcs @ [v]) @ got
                \<and> list_all2 (\<lambda>item v. produced_from L (snd item) v) items got)
            \<and> (\<forall>i \<in> fst ` set items. \<exists>a. Attempted i a None \<in> set new)"
      by blast
    have 1: "trace w' = trace w @ (new1 @ new)" using new(1) new1(1) by simp
    have 2: "\<forall>j. attempts_at j (new1 @ new) \<le> (if j \<in> fst ` set (item # items) then 2 else 0)"
    proof
      fix j
      show "attempts_at j (new1 @ new) \<le> (if j \<in> fst ` set (item # items) then 2 else 0)"
      proof (cases "j = i")
        case True
        with ni new(2)[rule_format, of i] have "attempts_at j new = 0" by simp
        with le2 True item show ?thesis by (simp add: attempts_at_def)
      next
        case False
        with new1(3) have "attempts_at j new1 = 0" by simp
        with new(2)[rule_format, of j] False item show ?thesis by (simp add: attempts_at_def)
      qed
    qed
    have 3: "cleanup_follows n (new1 @ new)"
      using cleanup_follows_append[OF new1(4) new(3)] .
    have 4: "propagates_at_once r (new1 @ new)"
      using propagates_at_once_Inr_append[OF new1(5)[unfolded Inr] new(4)] .
    have 5: "\<forall>j e. Attempted j 2 (Some e) \<in> set (new1 @ new)
               \<longrightarrow> r = Inl e \<or> (\<exists>p. r = Inl (OSError p))"
    proof (intro allI impI)
      fix j e assume "Attempted j 2 (Some e) \<in> set (new1 @ new)"
      then have "Attempted j 2 (Some e) \<in> set new1 \<or> Attempted j 2 (Some e) \<in> set new"
        by simp
      then show "r = Inl e \<or> (\<exists>p. r = Inl (OSError p))"
      proof
        assume a: "Attempted j 2 (Some e) \<in> set new1"
        then have "j = i" by (rule only1)
        with a new1(6) have "r1 = Inl e \<or> (\<exists>p. r1 = Inl (OSError p))" by blast
        with Inr show ?thesis by auto
      next
        assume "Attempted j 2 (Some e) \<in> set new"
        with new(5) show ?thesis by blast
      qed
    qed
    have 6: "\<forall>i x. Attempted i 2 x \<in> set (new1 @ new) \<longrightarrow>
            (\<exists>m. Attempted i 1 (Some (LightkurveError m)) \<in> set (new1 @ new))"
    proof (intro allI impI)
      fix j x assume "Attempted j 2 x \<in> set (new1 @ new)"
      then have "Attempted j 2 x \<in> set new1 \<or> Attempted j 2 x \<in> set new" by simp
      then show "\<exists>m. Attempted j 1 (Some (LightkurveError m)) \<in> set (new1 @ new)"
      proof
        assume "Attempted j 2 x \<in> set new1"
        from retry1[OF this] show ?thesis by auto
      next
        assume "Attempted j 2 x \<in> set new"
        with new(6) show ?thesis by auto
      qed
    qed
    have 7: "\<forall>out. r = Inr out \<longrightarrow>
            (\<exists>got. out = lcs @ got
                \<and> list_all2 (\<lambda>item v. produced_from L (snd item) v) (item # items) got)
            \<and> (\<forall>i \<in> fst ` set (item # items). \<exists>a. Attempted i a None \<in> set (new1 @ new))"
    proof (intro allI impI conjI)
      fix out assume o: "r = Inr out"
      with new(7) obtain got where got: "out = (lcs @ [v]) @ got"
        "list_all2 (\<lambda>item v. produced_from L (snd item) v) items got" by blast
      show "\<exists>got. out = lcs @ got
                \<and> list_all2 (\<lambda>item v. produced_from L (snd item) v) (item # items) got"
        using got v(3) item by (intro exI[of _ "v # got"]) simp
      show "\<forall>i \<in> fst ` set (item # items). \<exists>a. Attempted i a None \<in> set (new1 @ new)"
      proof
        fix j assume "j \<in> fst ` set (item # items)"
        then have "j = i \<or> j \<in> fst ` set items" using item by auto
        then show "\<exists>a. Attempted j a None \<in> set (new1 @ new)"
        proof
          assume "j = i"
          with v(1) show ?thesis by auto
        next
          assume "j \<in> fst ` set items"
          with new(7) o obtain a where "Attempted j a None \<in> set new" by blast
          then show ?thesis by auto
        qed
      qed
    qed
    from 1 2 3 4 5 6 7 show ?thesis
      by (intro exI[of _ "new1 @ new"] conjI) assumption+
  qed
qed

lemma enumerate1_fst: "map fst (enumerate1 xs) = [1 ..< Suc (length xs)]"
  by (simp add: enumerate1_def del: upt_Suc)

lemma enumerate1_snd: "map snd (enumerate1 xs) = xs"
  by (simp add: enumerate1_def del: upt_Suc)

lemma enumerate1_distinct: "distinct (map fst (enumerate1 xs))"
  by (simp add: enumerate1_fst del: upt_Suc)

lemma enumerate1_indices: "i \<in> fst ` set (enumerate1 xs) \<longleftrightarrow> 1 \<le> i \<and> i \<le> length xs"
proof -
  have "fst ` set (enumerate1 xs) = set (map fst (enumerate1 xs))" by simp
  also have "\<dots> = {1 ..< Suc (length xs)}" unfolding enumerate1_fst by (simp del: upt_Suc)
  finally show ?thesis by auto
qed


lemma propagates_at_onceD:
  "propagates_at_once r (pre @ Attempted i a (Some e) # post) \<Longrightarrow> \<not> is_LightkurveError e
     \<Longrightarrow> post = [] \<and> r = Inl e"
  by (induction pre) (simp_all add: other_failure_def)

lemma attempt_loop_retry:
  assumes "attempt_loop L i n prd [1, 2] lc w = (r, w')" "trace w' = trace w @ new"
    "Attempted j 1 (Some (LightkurveError m)) \<in> set new"
  shows "(\<exists>x. Attempted j 2 x \<in> set new) \<or> (\<exists>p. r = Inl (OSError p))"
proof -
  obtain t w1 where tb: "try_body L prd w = (t, w1)" by force
  have tr1: "trace w1 = trace w" using try_body_trace[OF tb] .
  show ?thesis
  proof (cases t)
    case (Inr lc1)
    with assms(1) tb have "w' = emit (Attempted i 1 None) w1" by simp
    with tr1 assms(2) have "new = [Attempted i 1 None]" by (simp add: emit_def)
    with assms(3) show ?thesis by simp
  next
    case (Inl e)
    show ?thesis
    proof (cases "is_LightkurveError e")
      case False
      with assms(1) tb Inl have "w' = emit (Attempted i 1 (Some e)) w1" by simp
      with tr1 assms(2) have "new = [Attempted i 1 (Some e)]" by (simp add: emit_def)
      with assms(3) False show ?thesis by auto
    next
      case True
      then obtain m' where e: "e = LightkurveError m'" by (cases e) auto
      let ?w2 = "emit (CleanCall m') (emit (Stdout (ReadFailed i n 1))
                   (emit (Attempted i 1 (Some e)) w1))"
      obtain rc w3 where cl: "clean_corrupt_file m' ?w2 = (rc, w3)" by force
      from clean_corrupt_file_trace[OF cl] obtain c where
        c: "trace w3 = trace ?w2 @ c" by blast
      show ?thesis
      proof (cases rc)
        case (Inl e1)
        with assms(1) tb \<open>t = Inl e\<close> e cl have "r = Inl e1" by simp
        moreover have "\<exists>p. e1 = OSError p"
          using clean_corrupt_file_cases[OF cl] Inl by auto
        ultimately show ?thesis by auto
      next
        case (Inr u)
        with assms(1) tb \<open>t = Inl e\<close> e cl
        have rec: "attempt_loop L i n prd [2] lc w3 = (r, w')" by simp
        from attempt_loop_first[OF rec] obtain x rest where
          x: "trace w' = trace w3 @ Attempted i 2 x # rest" by blast
        from attempt_loop_events[OF assms(1)] assms(2)
        have "\<forall>k. k \<noteq> i \<longrightarrow> attempts_at k new = 0" by auto
        with attempts_at_pos[OF assms(3)] have ji: "j = i" by force
        from x c tr1 assms(2) have "Attempted i 2 x \<in> set new" by (simp add: emit_def)
        with ji show ?thesis by blast
      qed
    qed
  qed
qed

lemma item_loop_retry:
  assumes "item_loop L n items lc lcs w = (r, w')" "trace w' = trace w @ new"
    "Attempted j 1 (Some (LightkurveError m)) \<in> set new" "distinct (map fst items)"
  shows "(\<exists>x. Attempted j 2 x \<in> set new) \<or> (\<exists>p. r = Inl (OSError p))"
  using assms
proof (induction items arbitrary: lc lcs w new)
  case Nil
  then show ?case by simp
next
  case (Cons item items)
  obtain i prd where item: "item = (i, prd)" by force
  obtain r1 w1 where al: "attempt_loop L i n prd [1, 2] lc w = (r1, w1)" by force
  from attempt_loop_events[OF al] obtain new1 where new1: "trace w1 = trace w @ new1"
    by (elim exE conjE) (rule that)
  note one = attempt_loop_retry[OF al new1]
  show ?case
  proof (cases r1)
    case (Inl e)
    with Cons.prems(1) item al have rw: "r = Inl e" "w' = w1" by simp_all
    with new1 Cons.prems(2) have "new = new1" by simp
    with one[of j m] Cons.prems(3) Inl rw show ?thesis by auto
  next
    case (Inr x)
    show ?thesis
    proof (cases x)
      case None
      with Cons.prems(1) item al Inr have "w' = w1" by simp
      with new1 Cons.prems(2) have "new = new1" by simp
      with one[of j m] Cons.prems(3) Inr show ?thesis by auto
    next
      case (Some v)
      with Cons.prems(1) item al Inr
      have rec: "item_loop L n items (Some v) (lcs @ [v]) w1 = (r, w')" by simp
      from Cons.prems(4) have d: "distinct (map fst items)" by simp
      from item_loop_events[OF rec d] obtain new2 where new2: "trace w' = trace w1 @ new2"
        by (elim exE conjE) (rule that)
      with new1 Cons.prems(2) have n: "new = new1 @ new2" by simp
      with Cons.prems(3) have "Attempted j 1 (Some (LightkurveError m)) \<in> set new1
          \<or> Attempted j 1 (Some (LightkurveError m)) \<in> set new2" by simp
      then show ?thesis
      proof
        assume "Attempted j 1 (Some (LightkurveError m)) \<in> set new1"
        from one[OF this] Inr n show ?thesis by auto
      next
        assume "Attempted j 1 (Some (LightkurveError m)) \<in> set new2"
        from Cons.IH[OF rec new2 this d] n show ?thesis by auto
      qed
    qed
  qed
qed

lemma download_and_stitch_split:
  assumes "download_and_stitch L srch w = (r, w')"
  shows "\<exists>r0 w2. item_loop L (len_srch srch) (enumerate1 (sr_rows srch)) None []
                  (emit (Stdout (Downloading (len_srch srch)
                     (shown_estimate (estimate_size_mb srch)))) w) = (r0, w2)
           \<and> ((\<exists>e. r0 = Inl e \<and> r = Inl e \<and> w' = w2)
              \<or> (\<exists>lcs. r0 = Inr lcs \<and> r = stitch L lcs
                    \<and> w' = emit (Stitched (length lcs)) w2))"
  using assms unfolding download_and_stitch_def Let_def
  by (auto split: prod.splits sum.splits)

lemma attempts_at_frame:
  "list_all no_attempt sfx \<Longrightarrow> no_attempt d \<Longrightarrow> attempts_at i (d # xs @ sfx) = attempts_at i xs"
  by (cases d) (simp_all add: attempts_at_def no_attempt_filter)

lemma attempted_frame:
  "list_all no_attempt sfx \<Longrightarrow> no_attempt d
     \<Longrightarrow> Attempted i a x \<in> set (d # xs @ sfx) \<longleftrightarrow> Attempted i a x \<in> set xs"
  using no_attempt_notin[of sfx i a x] by (cases d) auto

lemma download_and_stitch_events:
  assumes "download_and_stitch L srch w = (r, w')"
  shows "\<exists>new. trace w' = trace w @ new
     \<and> (\<forall>i. attempts_at i new \<le> (if 1 \<le> i \<and> i \<le> len_srch srch then 2 else 0))
     \<and> cleanup_follows (len_srch srch) new
     \<and> propagates_at_once r new
     \<and> (\<forall>i m. Attempted i 1 (Some (LightkurveError m)) \<in> set new \<longrightarrow>
            (\<exists>x. Attempted i 2 x \<in> set new) \<or> (\<exists>p. r = Inl (OSError p)))
     \<and> (\<forall>i e. Attempted i 2 (Some e) \<in> set new \<longrightarrow> r = Inl e \<or> (\<exists>p. r = Inl (OSError p)))
     \<and> (\<forall>i x. Attempted i 2 x \<in> set new \<longrightarrow>
            (\<exists>m. Attempted i 1 (Some (LightkurveError m)) \<in> set new))
     \<and> (\<forall>st. r = Inr st \<longrightarrow>
            (\<forall>i. 1 \<le> i \<and> i \<le> len_srch srch \<longrightarrow> (\<exists>a. Attempted i a None \<in> set new)))"
proof -
  let ?n = "len_srch srch"
  let ?d = "Stdout (Downloading ?n (shown_estimate (estimate_size_mb srch)))"
  let ?items = "enumerate1 (sr_rows srch)"
  from download_and_stitch_split[OF assms] obtain r0 w2 where
    il: "item_loop L ?n ?items None [] (emit ?d w) = (r0, w2)"
    and alt: "(\<exists>e. r0 = Inl e \<and> r = Inl e \<and> w' = w2)
              \<or> (\<exists>lcs. r0 = Inr lcs \<and> r = stitch L lcs \<and> w' = emit (Stitched (length lcs)) w2)"
    by blast
  have idx: "i \<in> fst ` set ?items \<longleftrightarrow> 1 \<le> i \<and> i \<le> ?n" for i
    using enumerate1_indices[of i "sr_rows srch"] by (simp add: len_srch_def)
  from item_loop_events[OF il enumerate1_distinct] obtain new0 where new0:
    "trace w2 = trace (emit ?d w) @ new0"
    "\<forall>i. attempts_at i new0 \<le> (if i \<in> fst ` set ?items then 2 else 0)"
    "cleanup_follows ?n new0" "propagates_at_once r0 new0"
    "\<forall>i e. Attempted i 2 (Some e) \<in> set new0 \<longrightarrow> r0 = Inl e \<or> (\<exists>p. r0 = Inl (OSError p))"
    "\<forall>i x. Attempted i 2 x \<in> set new0 \<longrightarrow>
            (\<exists>m. Attempted i 1 (Some (LightkurveError m)) \<in> set new0)"
    "\<forall>out. r0 = Inr out \<longrightarrow>
            (\<exists>got. out = [] @ got
               \<and> list_all2 (\<lambda>item v. produced_from L (snd item) v) ?items got)
            \<and> (\<forall>i \<in> fst ` set ?items. \<exists>a. Attempted i a None \<in> set new0)"
    by (elim exE conjE) (rule that)
  have retry: "(\<exists>x. Attempted i 2 x \<in> set new0) \<or> (\<exists>p. r0 = Inl (OSError p))"
    if "Attempted i 1 (Some (LightkurveError m)) \<in> set new0" for i m
    using item_loop_retry[OF il new0(1) that enumerate1_distinct] .
  define sfx where "sfx = (case r0 of Inl e \<Rightarrow> [] | Inr lcs \<Rightarrow> [Stitched (length lcs)])"
  have sfx: "list_all no_attempt sfx" by (simp add: sfx_def split: sum.split)
  have d: "no_attempt ?d" by simp
  have tr: "trace w' = trace w @ (?d # new0 @ sfx)"
    using alt new0(1) by (auto simp: sfx_def emit_def)
  have mem: "Attempted i a x \<in> set (?d # new0 @ sfx) \<longleftrightarrow> Attempted i a x \<in> set new0" for i a x
    using attempted_frame[OF sfx d] .
  have cnt: "attempts_at i (?d # new0 @ sfx) = attempts_at i new0" for i
    using attempts_at_frame[OF sfx d] .
  have rl: "r = Inl e" if "r0 = Inl e" for e using alt that by auto
  have rr: "\<exists>lcs. r0 = Inr lcs" if "r = Inr st" for st using alt that by auto
  have 2: "\<forall>i. attempts_at i (?d # new0 @ sfx) \<le> (if 1 \<le> i \<and> i \<le> ?n then 2 else 0)"
    using new0(2) unfolding cnt idx .
  have cf1: "cleanup_follows ?n (new0 @ sfx)"
    using cleanup_follows_append[OF new0(3) no_attempt_cleanup_follows[OF sfx]] .
  have 3: "cleanup_follows ?n (?d # new0 @ sfx)"
    using cf1 by (simp add: lk_failure_def)
  have p1: "propagates_at_once r (new0 @ sfx)"
  proof (cases r0)
    case (Inl e)
    then have "sfx = []" by (simp add: sfx_def)
    with propagates_at_once_Inl[OF new0(4)[unfolded Inl]] rl[OF Inl] show ?thesis by simp
  next
    case (Inr lcs)
    have "propagates_at_once r sfx" by (simp add: sfx_def Inr other_failure_def)
    from propagates_at_once_Inr_append[OF new0(4)[unfolded Inr] this] show ?thesis .
  qed
  have 4: "propagates_at_once r (?d # new0 @ sfx)"
    using p1 by (simp add: other_failure_def)
  have 5: "\<forall>i m. Attempted i 1 (Some (LightkurveError m)) \<in> set (?d # new0 @ sfx) \<longrightarrow>
            (\<exists>x. Attempted i 2 x \<in> set (?d # new0 @ sfx)) \<or> (\<exists>p. r = Inl (OSError p))"
    unfolding mem using retry rl by blast
  have 6: "\<forall>i e. Attempted i 2 (Some e) \<in> set (?d # new0 @ sfx)
             \<longrightarrow> r = Inl e \<or> (\<exists>p. r = Inl (OSError p))"
    unfolding mem using new0(5) rl by blast
  have 7: "\<forall>i x. Attempted i 2 x \<in> set (?d # new0 @ sfx) \<longrightarrow>
            (\<exists>m. Attempted i 1 (Some (LightkurveError m)) \<in> set (?d # new0 @ sfx))"
    unfolding mem using new0(6) .
  have 8: "\<forall>st. r = Inr st \<longrightarrow>
            (\<forall>i. 1 \<le> i \<and> i \<le> ?n \<longrightarrow> (\<exists>a. Attempted i a None \<in> set (?d # new0 @ sfx)))"
  proof (intro allI impI)
    fix st i assume "r = Inr st" "1 \<le> i \<and> i \<le> ?n"
    from rr[OF this(1)] obtain lcs where "r0 = Inr lcs" by blast
    with new0(7) have "\<forall>i \<in> fst ` set ?items. \<exists>a. Attempted i a None \<in> set new0" by blast
    with \<open>1 \<le> i \<and> i \<le> ?n\<close> idx[of i] show "\<exists>a. Attempted i a None \<in> set (?d # new0 @ sfx)"
      unfolding mem by blast
  qed
  from tr 2 3 4 5 6 7 8 show ?thesis
    by (intro exI[of _ "?d # new0 @ sfx"] conjI) assumption+
qed


lemma attempt_loop_other:
  assumes "try_body L prd w0 = (Inl e, w1)" "\<not> is_LightkurveError e"
  shows "attempt_loop L i n prd (a # rest) lc w0 = (Inl e, emit (Attempted i a (Some e)) w1)"
  using assms by (simp add: Let_def)


text \<open>
  C3. In every run of \<^verbatim>\<open>download_and_stitch\<close>, an attempt that ends on an exception
  other than a \<open>LightkurveError\<close> is the last thing that happens: no "Read failed" line,
  no call of the recovery, no further attempt, and the run ends on that exception. A
  second attempt is made only after a first one that ended on a \<open>LightkurveError\<close>. For
  such an exception the loop returns it from the world that the failed attempt left.
\<close>
theorem download_and_stitch_other_exceptions:
  assumes "download_and_stitch L srch w = (r, w')"
  shows "(\<exists>new. trace w' = trace w @ new
     \<and> (\<forall>pre i a e post. new = pre @ Attempted i a (Some e) # post \<and> \<not> is_LightkurveError e
            \<longrightarrow> post = [] \<and> r = Inl e)
     \<and> (\<forall>i x. Attempted i 2 x \<in> set new \<longrightarrow>
            (\<exists>m. Attempted i 1 (Some (LightkurveError m)) \<in> set new)))
   \<and> (\<forall>i n prd a rest lc w0 e w1.
         try_body L prd w0 = (Inl e, w1) \<and> \<not> is_LightkurveError e \<longrightarrow>
         attempt_loop L i n prd (a # rest) lc w0 = (Inl e, emit (Attempted i a (Some e)) w1))"
proof (rule conjI)
  from download_and_stitch_events[OF assms] obtain new where new:
    "trace w' = trace w @ new" "propagates_at_once r new"
    "\<forall>i x. Attempted i 2 x \<in> set new \<longrightarrow>
            (\<exists>m. Attempted i 1 (Some (LightkurveError m)) \<in> set new)"
    by (elim exE conjE) (rule that)
  have 2: "\<forall>pre i a e post. new = pre @ Attempted i a (Some e) # post \<and> \<not> is_LightkurveError e
            \<longrightarrow> post = [] \<and> r = Inl e"
    using new(2) propagates_at_onceD by blast
  from new(1) 2 new(3)
  show "\<exists>new. trace w' = trace w @ new
     \<and> (\<forall>pre i a e post. new = pre @ Attempted i a (Some e) # post \<and> \<not> is_LightkurveError e
            \<longrightarrow> post = [] \<and> r = Inl e)
     \<and> (\<forall>i x. Attempted i 2 x \<in> set new \<longrightarrow>
            (\<exists>m. Attempted i 1 (Some (LightkurveError m)) \<in> set new))"
    by (intro exI[of _ new] conjI) assumption+
next
  show "\<forall>i n prd a rest lc w0 e w1.
         try_body L prd w0 = (Inl e, w1) \<and> \<not> is_LightkurveError e \<longrightarrow>
         attempt_loop L i n prd (a # rest) lc w0 = (Inl e, emit (Attempted i a (Some e)) w1)"
    by (intro allI impI, elim conjE) (rule attempt_loop_other)
qed




lemma demo_success:
  "fst (download_and_stitch (demo_lib [''flaky'', ''good'']) (demo_res [''flaky'', ''good''] 120)
          demo_world)
     = Inr \<lparr>lc_class = ''TessLightCurve'', lc_time = [1, 3, 1, 3],
            lc_table =
              [(''flux'', [Val (2000000 / 3), Val (4000000 / 3), Val (2000000 / 3),
                          Val (4000000 / 3)]),
               (''sap_flux'', [Val 2, Val 4, Val 2, Val 4])]\<rparr>"
  "trace (snd (download_and_stitch (demo_lib [''flaky'', ''good''])
          (demo_res [''flaky'', ''good''] 120) demo_world))
     = [Stdout (Downloading 2 None),
        Attempted 1 1 (Some (LightkurveError flaky_msg)),
        Stdout (ReadFailed 1 2 1), CleanCall flaky_msg,
        Stdout (Removing ''/cache/flaky.fits''), Unlinked ''/cache/flaky.fits'',
        Attempted 1 2 None, Attempted 2 1 None, Stitched 2]"
  by code_simp+

lemma demo_crash:
  "fst (download_and_stitch (demo_lib [''good'', ''crash'', ''good''])
          (demo_res [''good'', ''crash'', ''good''] 120) demo_world)
     = Inl (OtherException ''KeyError'' ''SAP_FLUX'')"
  "trace (snd (download_and_stitch (demo_lib [''good'', ''crash'', ''good''])
          (demo_res [''good'', ''crash'', ''good''] 120) demo_world))
     = [Stdout (Downloading 3 None), Attempted 1 1 None,
        Attempted 2 1 (Some (OtherException ''KeyError'' ''SAP_FLUX''))]"
  by code_simp+

lemma demo_try_body:
  "try_body (demo_lib ps) ''broken'' demo_world
     = (Inl (LightkurveError ''download failed''), demo_world)"
  "try_body (demo_lib ps) ''crash'' demo_world
     = (Inl (OtherException ''KeyError'' ''SAP_FLUX''), demo_world)"
  by (simp_all add: try_body_def run_call_def demo_lib_def demo_download_def demo_world_def)


theorem download_and_stitch_other_exceptions_witness:
  "fst (download_and_stitch (demo_lib [''good'', ''crash'', ''good''])
          (demo_res [''good'', ''crash'', ''good''] 120) demo_world)
     = Inl (OtherException ''KeyError'' ''SAP_FLUX'')
   \<and> trace (snd (download_and_stitch (demo_lib [''good'', ''crash'', ''good''])
          (demo_res [''good'', ''crash'', ''good''] 120) demo_world))
     = [Stdout (Downloading 3 None), Attempted 1 1 None]
       @ Attempted 2 1 (Some (OtherException ''KeyError'' ''SAP_FLUX'')) # []
   \<and> \<not> is_LightkurveError (OtherException ''KeyError'' ''SAP_FLUX'')
   \<and> try_body (demo_lib [''good'', ''crash'', ''good'']) ''crash'' demo_world
        = (Inl (OtherException ''KeyError'' ''SAP_FLUX''), demo_world)
   \<and> attempt_loop (demo_lib [''good'', ''crash'', ''good'']) 2 3 ''crash'' [1, 2] None demo_world
        = (Inl (OtherException ''KeyError'' ''SAP_FLUX''),
           emit (Attempted 2 1 (Some (OtherException ''KeyError'' ''SAP_FLUX''))) demo_world)
   \<and> Attempted 1 2 None \<in> set (trace (snd (download_and_stitch (demo_lib [''flaky'', ''good''])
          (demo_res [''flaky'', ''good''] 120) demo_world)))
   \<and> (\<exists>m. Attempted 1 1 (Some (LightkurveError m))
          \<in> set (trace (snd (download_and_stitch (demo_lib [''flaky'', ''good''])
          (demo_res [''flaky'', ''good''] 120) demo_world))))"
proof -
  let ?L = "demo_lib [''good'', ''crash'', ''good'']"
  let ?D = "download_and_stitch ?L (demo_res [''good'', ''crash'', ''good''] 120) demo_world"
  let ?G = "download_and_stitch (demo_lib [''flaky'', ''good''])
              (demo_res [''flaky'', ''good''] 120) demo_world"
  let ?e = "OtherException ''KeyError'' ''SAP_FLUX''"
  have t0: "trace demo_world = []" by (simp add: demo_world_def)
  note inst = download_and_stitch_other_exceptions[of ?L
      "demo_res [''good'', ''crash'', ''good''] 120" demo_world "fst ?D" "snd ?D",
      OF prod.collapse[symmetric]]
  have ne: "\<not> is_LightkurveError ?e" by simp
  note step = inst[THEN conjunct2, rule_format,
      OF conjI[OF demo_try_body(2)[of "[''good'', ''crash'', ''good'']"] ne], of 2 3 1 "[2]" None]
  have two: "Attempted 1 2 None \<in> set (trace (snd ?G))"
    unfolding demo_success(2) by simp
  note insg = download_and_stitch_other_exceptions[of "demo_lib [''flaky'', ''good'']"
      "demo_res [''flaky'', ''good''] 120" demo_world "fst ?G" "snd ?G",
      OF prod.collapse[symmetric]]
  from insg[THEN conjunct1] obtain newg where
    newg: "trace (snd ?G) = trace demo_world @ newg"
      "\<forall>i x. Attempted i 2 x \<in> set newg \<longrightarrow>
            (\<exists>m. Attempted i 1 (Some (LightkurveError m)) \<in> set newg)"
    by (elim exE conjE) (rule that)
  from newg(1) have eqg: "newg = trace (snd ?G)" by (simp add: t0)
  from newg(2)[rule_format, of 1 None] two
  have one: "\<exists>m. Attempted 1 1 (Some (LightkurveError m)) \<in> set (trace (snd ?G))"
    unfolding eqg by blast
  have tr: "trace (snd ?D) = [Stdout (Downloading 3 None), Attempted 1 1 None]
       @ Attempted 2 1 (Some ?e) # []"
    using demo_crash(2) by simp
  from demo_crash(1) tr ne demo_try_body(2)[of "[''good'', ''crash'', ''good'']"] step two one
  show ?thesis by (intro conjI)
qed

section \<open>Properties of the size estimate\<close>

lemma emit_shift: "emit e (shift t w) = shift t (emit e w)"
  by (simp add: emit_def shift_def)

lemma run_call_shift: "run_call c (shift t w) = apsnd (shift t) (run_call c w)"
  by (simp add: run_call_def shift_def split: prod.splits)

lemma try_body_shift: "try_body L prd (shift t w) = apsnd (shift t) (try_body L prd w)"
  by (simp add: try_body_def run_call_shift split: prod.splits sum.splits)

lemma stat_fails_shift: "stat_fails (shift t w) p = stat_fails w p"
  by (simp add: stat_fails_def shift_def)

lemma unlink_shift: "unlink p (shift t w) = apsnd (shift t) (unlink p w)"
  by (simp add: unlink_def stat_fails_def shift_def emit_def split: option.splits kind.splits)

lemma clean_corrupt_file_shift:
  "clean_corrupt_file m (shift t w) = apsnd (shift t) (clean_corrupt_file m w)"
proof -
  have p: "path_exists (shift t w) p = path_exists w p" for p
    by (simp add: path_exists_def stat_fails_shift) (simp add: shift_def)
  show ?thesis
    by (simp add: clean_corrupt_file_def p emit_shift unlink_shift split: option.splits sum.splits)
qed

lemma attempt_loop_shift:
  "attempt_loop L i n prd as lc (shift t w) = apsnd (shift t) (attempt_loop L i n prd as lc w)"
proof (induction as arbitrary: w)
  case Nil
  show ?case by simp
next
  case (Cons a as)
  obtain r1 w1 where tb: "try_body L prd w = (r1, w1)" by force
  then have tbs: "try_body L prd (shift t w) = (r1, shift t w1)" by (simp add: try_body_shift)
  show ?case
  proof (cases r1)
    case (Inr v)
    with tb tbs show ?thesis by (simp add: emit_shift)
  next
    case (Inl e)
    show ?thesis
    proof (cases "is_LightkurveError e")
      case False
      with Inl tb tbs show ?thesis by (simp add: emit_shift)
    next
      case True
      let ?w2 = "emit (CleanCall (str_exn e)) (emit (Stdout (ReadFailed i n a))
                   (emit (Attempted i a (Some e)) w1))"
      obtain rc w3 where cl: "clean_corrupt_file (str_exn e) ?w2 = (rc, w3)" by force
      then have cls: "clean_corrupt_file (str_exn e)
          (emit (CleanCall (str_exn e)) (emit (Stdout (ReadFailed i n a))
                   (emit (Attempted i a (Some e)) (shift t w1)))) = (rc, shift t w3)"
        by (simp add: emit_shift clean_corrupt_file_shift)
      from True Inl tb tbs cl cls Cons.IH[of w3] show ?thesis
        by (cases rc) (simp_all add: Let_def)
    qed
  qed
qed

lemma item_loop_shift:
  "item_loop L n items lc lcs (shift t w) = apsnd (shift t) (item_loop L n items lc lcs w)"
proof (induction items arbitrary: lc lcs w)
  case Nil
  show ?case by simp
next
  case (Cons item items)
  obtain i prd where item: "item = (i, prd)" by force
  obtain r1 w1 where al: "attempt_loop L i n prd [1, 2] lc w = (r1, w1)" by force
  then have als: "attempt_loop L i n prd [1, 2] lc (shift t w) = (r1, shift t w1)"
    by (simp add: attempt_loop_shift)
  show ?case
  proof (cases r1)
    case (Inl e)
    with item al als show ?thesis by simp
  next
    case (Inr x)
    with item al als Cons.IH show ?thesis by (cases x) simp_all
  qed
qed

lemma download_and_stitch_frame:
  "download_and_stitch L srch w =
     (case item_loop L (len_srch srch) (enumerate1 (sr_rows srch)) None [] (w\<lparr>trace := []\<rparr>) of
        (Inl e, w2) \<Rightarrow>
          (Inl e, shift (trace w @ [Stdout (Downloading (len_srch srch)
                                     (shown_estimate (estimate_size_mb srch)))]) w2)
      | (Inr lcs, w2) \<Rightarrow>
          (stitch L lcs,
           shift (trace w @ [Stdout (Downloading (len_srch srch)
                               (shown_estimate (estimate_size_mb srch)))])
             (emit (Stitched (length lcs)) w2)))"
proof -
  let ?d = "Stdout (Downloading (len_srch srch) (shown_estimate (estimate_size_mb srch)))"
  have "emit ?d w = shift (trace w @ [?d]) (w\<lparr>trace := []\<rparr>)"
    by (simp add: emit_def shift_def)
  then show ?thesis
    unfolding download_and_stitch_def Let_def
    by (simp add: item_loop_shift emit_shift split: prod.splits sum.splits)
qed

lemma estimate_loop_None:
  "\<forall>c \<in> set cols. map_of (sr_table srch) c = None \<Longrightarrow> estimate_loop cols srch = None"
  by (induction cols) simp_all

text \<open>
  C10. For a search result whose table has none of the columns \<^verbatim>\<open>filesize\<close>,
  \<^verbatim>\<open>size\<close>, \<^verbatim>\<open>file_size\<close>, the estimate is \<open>None\<close>, a value and not an exception. With
  any other table in its place, whatever that table holds, \<^verbatim>\<open>download_and_stitch\<close> ends
  on the same result (the same stitched light curve or the same exception), the same
  file system and the same outside, and the two traces are equal event by event after
  the first one, the progress line, which is the only place where the estimate shows.
\<close>
theorem estimate_size_mb_only_progress:
  assumes "''filesize'' \<notin> fst ` set (sr_table srch)" "''size'' \<notin> fst ` set (sr_table srch)"
    "''file_size'' \<notin> fst ` set (sr_table srch)"
  shows "estimate_size_mb srch = None
   \<and> fst (download_and_stitch L (srch\<lparr>sr_table := tbl\<rparr>) w) = fst (download_and_stitch L srch w)
   \<and> fs (snd (download_and_stitch L (srch\<lparr>sr_table := tbl\<rparr>) w))
        = fs (snd (download_and_stitch L srch w))
   \<and> ext (snd (download_and_stitch L (srch\<lparr>sr_table := tbl\<rparr>) w))
        = ext (snd (download_and_stitch L srch w))
   \<and> (\<exists>rest. trace (snd (download_and_stitch L srch w))
                 = trace w @ Stdout (Downloading (len_srch srch) None) # rest
             \<and> trace (snd (download_and_stitch L (srch\<lparr>sr_table := tbl\<rparr>) w))
                 = trace w @ Stdout (Downloading (len_srch srch)
                      (shown_estimate (estimate_size_mb (srch\<lparr>sr_table := tbl\<rparr>)))) # rest)"
proof -
  have e: "estimate_size_mb srch = None"
    unfolding estimate_size_mb_def using assms
    by (intro estimate_loop_None) (simp add: map_of_eq_None_iff)
  obtain r0 w2 where il: "item_loop L (len_srch srch) (enumerate1 (sr_rows srch)) None []
      (w\<lparr>trace := []\<rparr>) = (r0, w2)" by force
  have l: "len_srch (srch\<lparr>sr_table := tbl\<rparr>) = len_srch srch" by (simp add: len_srch_def)
  note f1 = download_and_stitch_frame[of L srch w, unfolded il e]
  note f2 = download_and_stitch_frame[of L "srch\<lparr>sr_table := tbl\<rparr>" w, unfolded l,
      simplified, unfolded il]
  show ?thesis
  proof (cases r0)
    case (Inl x)
    with f1 f2 e show ?thesis
      by (simp add: shift_def shown_estimate_def)
  next
    case (Inr lcs)
    with f1 f2 e show ?thesis
      by (simp add: shift_def shown_estimate_def emit_def)
  qed
qed

lemma demo_sizes:
  "trace (snd (download_and_stitch (demo_lib [''good'']) demo_srch demo_world))
     = [Stdout (Downloading 1 None), Attempted 1 1 None, Stitched 1]"
  "trace (snd (download_and_stitch (demo_lib [''good''])
       (demo_srch\<lparr>sr_table := [(''size'', [2097152])]\<rparr>) demo_world))
     = [Stdout (Downloading 1 (Some 2)), Attempted 1 1 None, Stitched 1]"
  "estimate_size_mb (demo_srch\<lparr>sr_table := [(''size'', [2097152])]\<rparr>) = Some 2"
  "fst (download_and_stitch (demo_lib [''good'']) demo_srch demo_world)
     = Inr \<lparr>lc_class = ''TessLightCurve'', lc_time = [1, 3],
            lc_table = [(''flux'', [Val (2000000 / 3), Val (4000000 / 3)]),
                        (''sap_flux'', [Val 2, Val 4])]\<rparr>"
  by code_simp+

theorem estimate_size_mb_only_progress_witness:
  "''filesize'' \<notin> fst ` set (sr_table demo_srch) \<and> ''size'' \<notin> fst ` set (sr_table demo_srch)
   \<and> ''file_size'' \<notin> fst ` set (sr_table demo_srch)
   \<and> estimate_size_mb demo_srch = None
   \<and> estimate_size_mb (demo_srch\<lparr>sr_table := [(''size'', [2097152])]\<rparr>) = Some 2
   \<and> fst (download_and_stitch (demo_lib [''good''])
            (demo_srch\<lparr>sr_table := [(''size'', [2097152])]\<rparr>) demo_world)
       = Inr \<lparr>lc_class = ''TessLightCurve'', lc_time = [1, 3],
              lc_table = [(''flux'', [Val (2000000 / 3), Val (4000000 / 3)]),
                          (''sap_flux'', [Val 2, Val 4])]\<rparr>
   \<and> trace (snd (download_and_stitch (demo_lib [''good'']) demo_srch demo_world))
       = [Stdout (Downloading 1 None), Attempted 1 1 None, Stitched 1]
   \<and> trace (snd (download_and_stitch (demo_lib [''good''])
         (demo_srch\<lparr>sr_table := [(''size'', [2097152])]\<rparr>) demo_world))
       = [Stdout (Downloading 1 (Some 2)), Attempted 1 1 None, Stitched 1]"
proof -
  have h: "''filesize'' \<notin> fst ` set (sr_table demo_srch)"
    "''size'' \<notin> fst ` set (sr_table demo_srch)"
    "''file_size'' \<notin> fst ` set (sr_table demo_srch)"
    by (simp_all add: demo_srch_def)
  note t = estimate_size_mb_only_progress[OF h, of "demo_lib [''good'']"
      "[(''size'', [2097152])]" demo_world]
  from t have n: "estimate_size_mb demo_srch = None" by (rule conjunct1)
  from t have r: "fst (download_and_stitch (demo_lib [''good''])
            (demo_srch\<lparr>sr_table := [(''size'', [2097152])]\<rparr>) demo_world)
       = fst (download_and_stitch (demo_lib [''good'']) demo_srch demo_world)"
    by (elim conjE)
  from h n demo_sizes(3) r[unfolded demo_sizes(4)] demo_sizes(1,2) show ?thesis
    by (intro conjI)
qed

section \<open>Properties of the entry point\<close>



















section \<open>Properties of the normaliser\<close>

lemma column_set_column:
  "column (set_column t n c) n' = (if n' = n then c else column t n')"
  by (simp add: column_def set_column_def update_conv')

lemma colnames_set_column:
  "set (colnames (set_column t n c)) = insert n (set (colnames t))"
  using dom_update[of n c t] by (simp add: colnames_def set_column_def)

lemma select_rows_Nil: "select_rows keep [] = []"
  by (simp add: select_rows_def)

lemma map_of_map_snd:
  "map_of (map (\<lambda>(n, c). (n, f c)) t) name = map_option f (map_of t name)"
  by (induction t) auto

lemma column_filter_lc:
  "column (lc_table (filter_lc keep lc)) name = select_rows keep (column (lc_table lc) name)"
  by (simp add: column_def filter_lc_def map_of_map_snd select_rows_Nil split: option.splits)

lemma colnames_filter_lc: "colnames (lc_table (filter_lc keep lc)) = colnames (lc_table lc)"
  by (simp add: colnames_def filter_lc_def case_prod_unfold comp_def)

lemma time_filter_lc: "lc_time (filter_lc keep lc) = select_rows keep (lc_time lc)"
  by (simp add: filter_lc_def)

lemma map_of_map_column:
  "map_of (map_column n f t) name
     = (if name = n then map_option (map f) (map_of t name) else map_of t name)"
  by (induction t) (auto simp: map_column_def)

lemma column_map_column:
  "column (map_column n f t) name = (if name = n then map f (column t name) else column t name)"
  by (simp add: column_def map_of_map_column split: option.splits)

lemma colnames_map_column: "colnames (map_column n f t) = colnames t"
  by (induction t) (auto simp: colnames_def map_column_def)

lemma sap_copy_columns:
  "column (lc_table (sap_copy obj)) ''flux'' = column (lc_table obj) ''sap_flux''"
  "column (lc_table (sap_copy obj)) ''sap_flux'' = column (lc_table obj) ''sap_flux''"
  "lc_time (sap_copy obj) = lc_time obj"
  "lc_class (sap_copy obj) = lc_class obj"
  by (simp_all add: sap_copy_def Let_def column_set_column)

lemma sap_copy_colnames:
  "''sap_flux'' \<in> set (colnames (lc_table obj))
     \<Longrightarrow> ''sap_flux'' \<in> set (colnames (lc_table (sap_copy obj)))"
  by (simp add: sap_copy_def Let_def colnames_set_column)

lemma demo_normalised:
  "to_sap_lightcurve (demo_lib []) (LightCurveObj demo_lc)
     = Inr \<lparr>lc_class = ''TessLightCurve'', lc_time = [1, 3],
            lc_table = [(''flux'', [Val (2000000 / 3), Val (4000000 / 3)]),
                        (''sap_flux'', [Val 2, Val 4])]\<rparr>"
  by code_simp

text \<open>
  C1, as the specification states it, fails on both counts. A light curve with the
  aperture-summed values 2, NaN, 4 comes out with the flux values 2000000/3 and
  4000000/3, not 2 and 4: between the removal of the NaN and the trimming the flux is
  divided by its median and expressed in parts per million. And the column
  \<^verbatim>\<open>sap_flux\<close> is still in the output, with the values 2 and 4.
\<close>
theorem to_sap_lightcurve_rescales_and_keeps_sap_flux:
  "''sap_flux'' \<in> set (colnames (lc_table demo_lc))
   \<and> column (lc_table demo_lc) ''sap_flux'' = [Val 2, NaN, Val 4]
   \<and> follows_spec (demo_lib [])
   \<and> to_sap_lightcurve (demo_lib []) (LightCurveObj demo_lc)
       = Inr \<lparr>lc_class = ''TessLightCurve'', lc_time = [1, 3],
              lc_table = [(''flux'', [Val (2000000 / 3), Val (4000000 / 3)]),
                          (''sap_flux'', [Val 2, Val 4])]\<rparr>
   \<and> column [(''flux'', [Val (2000000 / 3), Val (4000000 / 3)]), (''sap_flux'', [Val 2, Val 4])]
        ''flux'' \<noteq> [Val 2, Val 4]
   \<and> ''sap_flux'' \<in> set (colnames [(''flux'', [Val (2000000 / 3), Val (4000000 / 3)]),
                                     (''sap_flux'', [Val 2, Val 4])])"
  using demo_normalised
  by (simp add: demo_lc_def colnames_def column_def follows_spec_def demo_lib_def)

text \<open>
  C1, amended. For a light curve that has a column \<^verbatim>\<open>sap_flux\<close>, the flux column
  that the normaliser hands to the cleaning chain is that column, value by value, and
  the result is the cleaning chain applied to this copy. When the operations of
  lightkurve are those of the specification, the output keeps the class and the column
  \<^verbatim>\<open>sap_flux\<close>, and its flux is obtained from the aperture-summed values in three
  steps: the NaN values are dropped, the others are divided by their median and
  multiplied by one million, and those beyond ten standard deviations are dropped; the
  columns \<^verbatim>\<open>sap_flux\<close> and time keep the same rows.
\<close>
theorem to_sap_lightcurve_flux_is_sap_flux:
  assumes "follows_spec L" "''sap_flux'' \<in> set (colnames (lc_table obj))"
  shows "sap_select (LightCurveObj obj) = Inr (sap_copy obj)
   \<and> column (lc_table (sap_copy obj)) ''flux'' = column (lc_table obj) ''sap_flux''
   \<and> to_sap_lightcurve L (LightCurveObj obj) = clean_normalize L (sap_copy obj)
   \<and> (\<exists>out. to_sap_lightcurve L (LightCurveObj obj) = Inr out
         \<and> ''sap_flux'' \<in> set (colnames (lc_table out))
         \<and> lc_class out = lc_class obj
         \<and> (let sap = column (lc_table obj) ''sap_flux'';
                 keep1 = map (\<lambda>c. c \<noteq> NaN) sap;
                 s1 = select_rows keep1 sap;
                 s2 = map (rescale (median (vals s1)) 1000000) s1;
                 keep2 = map (within_sigma 10 (vals s2)) s2
             in column (lc_table out) ''flux'' = select_rows keep2 s2
                \<and> column (lc_table out) ''sap_flux'' = select_rows keep2 s1
                \<and> lc_time out = select_rows keep2 (select_rows keep1 (lc_time obj))))"
proof -
  from assms(1) have L: "remove_nans L = spec_remove_nans" "normalize L = spec_normalize"
    "remove_outliers L = spec_remove_outliers"
    by (simp_all add: follows_spec_def)
  let ?lc0 = "sap_copy obj"
  let ?sap = "column (lc_table obj) ''sap_flux''"
  let ?keep1 = "map (\<lambda>c. c \<noteq> NaN) ?sap"
  let ?lc1 = "filter_lc ?keep1 ?lc0"
  let ?s1 = "select_rows ?keep1 ?sap"
  let ?f = "rescale (median (vals ?s1)) 1000000"
  let ?lc2 = "?lc1\<lparr>lc_table := map_column ''flux_err'' ?f (map_column ''flux'' ?f (lc_table ?lc1))\<rparr>"
  let ?s2 = "map ?f ?s1"
  let ?keep2 = "map (within_sigma 10 (vals ?s2)) ?s2"
  let ?out = "filter_lc ?keep2 ?lc2"
  have sel: "sap_select (LightCurveObj obj) = Inr ?lc0" using assms(2) by simp
  have ts: "to_sap_lightcurve L (LightCurveObj obj) = clean_normalize L ?lc0"
    unfolding to_sap_lightcurve_def sel by (simp add: and_then_def)
  have r1: "spec_remove_nans ?lc0 = Inr ?lc1"
    by (simp add: spec_remove_nans_def sap_copy_columns)
  have f1: "column (lc_table ?lc1) ''flux'' = ?s1"
    by (simp add: column_filter_lc sap_copy_columns)
  have r2: "spec_normalize ''ppm'' ?lc1 = Inr ?lc2"
    unfolding spec_normalize_def Let_def f1 by (simp add: unit_factor_def)
  have f2: "column (lc_table ?lc2) ''flux'' = ?s2"
    by (simp add: column_map_column f1)
  have r3: "spec_remove_outliers 10 ?lc2 = Inr ?out"
    unfolding spec_remove_outliers_def Let_def f2 ..
  have cn: "clean_normalize L ?lc0 = Inr ?out"
    by (simp add: clean_normalize_def and_then_def L r1 r2 r3)
  have o1: "column (lc_table ?out) ''flux'' = select_rows ?keep2 ?s2"
    unfolding column_filter_lc f2 ..
  have o2: "column (lc_table ?out) ''sap_flux'' = select_rows ?keep2 ?s1"
    by (simp add: column_filter_lc column_map_column sap_copy_columns)
  have o3: "lc_time ?out = select_rows ?keep2 (select_rows ?keep1 (lc_time obj))"
    by (simp add: time_filter_lc sap_copy_columns)
  have o4: "''sap_flux'' \<in> set (colnames (lc_table ?out))"
    using sap_copy_colnames[OF assms(2)]
    by (simp add: colnames_filter_lc colnames_map_column)
  have o5: "lc_class ?out = lc_class obj"
    by (simp add: filter_lc_def sap_copy_columns)
  have ex: "\<exists>out. to_sap_lightcurve L (LightCurveObj obj) = Inr out
         \<and> ''sap_flux'' \<in> set (colnames (lc_table out))
         \<and> lc_class out = lc_class obj
         \<and> (let sap = column (lc_table obj) ''sap_flux'';
                 keep1 = map (\<lambda>c. c \<noteq> NaN) sap;
                 s1 = select_rows keep1 sap;
                 s2 = map (rescale (median (vals s1)) 1000000) s1;
                 keep2 = map (within_sigma 10 (vals s2)) s2
             in column (lc_table out) ''flux'' = select_rows keep2 s2
                \<and> column (lc_table out) ''sap_flux'' = select_rows keep2 s1
                \<and> lc_time out = select_rows keep2 (select_rows keep1 (lc_time obj)))"
    unfolding Let_def using ts cn o1 o2 o3 o4 o5
    by (intro exI[of _ ?out] conjI) simp_all
  from sel sap_copy_columns(1) ts ex show ?thesis by (intro conjI)
qed

theorem to_sap_lightcurve_flux_is_sap_flux_witness:
  "follows_spec (demo_lib []) \<and> ''sap_flux'' \<in> set (colnames (lc_table demo_lc))
   \<and> column (lc_table (sap_copy demo_lc)) ''flux'' = [Val 2, NaN, Val 4]
   \<and> to_sap_lightcurve (demo_lib []) (LightCurveObj demo_lc)
       = Inr \<lparr>lc_class = ''TessLightCurve'', lc_time = [1, 3],
              lc_table = [(''flux'', [Val (2000000 / 3), Val (4000000 / 3)]),
                          (''sap_flux'', [Val 2, Val 4])]\<rparr>"
proof -
  have h: "follows_spec (demo_lib [])" "''sap_flux'' \<in> set (colnames (lc_table demo_lc))"
    by (simp_all add: follows_spec_def demo_lib_def demo_lc_def colnames_def)
  have s: "column (lc_table demo_lc) ''sap_flux'' = [Val 2, NaN, Val 4]"
    by (simp add: demo_lc_def column_def)
  from to_sap_lightcurve_flux_is_sap_flux[OF h]
  have "column (lc_table (sap_copy demo_lc)) ''flux'' = column (lc_table demo_lc) ''sap_flux''"
    by (elim conjE)
  with h s demo_normalised show ?thesis by simp
qed

end
